theory Spec2Isabelle
  imports Complex_Main "HOL-Library.Sublist"
begin

section \<open>Python primitives used by the RAG pipeline\<close>

text \<open>
  A Python \<open>str\<close> is modelled as \<^typ>\<open>string\<close>, one \<^typ>\<open>char\<close> per character of
  the Python string, so that \<open>len\<close> is \<^const>\<open>length\<close>.  Python integers are
  \<^typ>\<open>int\<close>.  Floats (embedding components, similarity scores) are never computed
  with by the code; they are passed through unchanged and are carried as \<^typ>\<open>real\<close>,
  the literal \<open>0.0\<close> being \<open>0\<close>.
\<close>

text \<open>The slice \<open>xs[start:end]\<close> for integer bounds: a negative bound counts from the
  end, every bound is clamped to \<open>[0, len(xs)]\<close>, and the slice never raises.\<close>

definition py_slice :: "'a list \<Rightarrow> int \<Rightarrow> int \<Rightarrow> 'a list" where
  "py_slice xs start stop =
     (let n = int (length xs);
          lo = (if start < 0 then max (start + n) 0 else min start n);
          hi = (if stop < 0 then max (stop + n) 0 else min stop n)
      in take (nat (hi - lo)) (drop (nat lo) xs))"

text \<open>\<open>str(n)\<close> for an integer, as an f-string renders it: decimal digits, with a
  leading minus sign for a negative number.\<close>

definition digit_char :: "nat \<Rightarrow> char" where
  "digit_char d = ''0123456789'' ! d"

function str_nat :: "nat \<Rightarrow> string" where
  "str_nat n = (if n < 10 then [digit_char n] else str_nat (n div 10) @ [digit_char (n mod 10)])"
  by pat_completeness auto
termination
  by (relation "measure id") auto

declare str_nat.simps [simp del]

definition str_int :: "int \<Rightarrow> string" where
  "str_int i = (if i < 0 then CHR ''-'' # str_nat (nat (- i)) else str_nat (nat i))"

text \<open>\<open>sep.join(parts)\<close>.\<close>

fun join :: "string \<Rightarrow> string list \<Rightarrow> string" where
  "join sep [] = []"
| "join sep [x] = x"
| "join sep (x # y # ys) = x @ sep @ join sep (y # ys)"

text \<open>\<open>c.isspace()\<close> for the characters below 256, and the truth value of
  \<open>text.strip()\<close>: the stripped string is non-empty exactly when some character is
  not whitespace.\<close>

definition isspace :: "char \<Rightarrow> bool" where
  "isspace c = (let k = (of_char c :: nat)
                in (9 \<le> k \<and> k \<le> 13) \<or> (28 \<le> k \<and> k \<le> 32) \<or> k = 133 \<or> k = 160)"

definition strip_nonempty :: "string \<Rightarrow> bool" where
  "strip_nonempty s = (\<exists>c \<in> set s. \<not> isspace c)"

section \<open>Data model\<close>

text \<open>The dictionaries of the code, with their keys as fields.  A key that a consumer
  reads with \<open>.get(key, default)\<close> may be absent, so its field is an option.\<close>

text \<open>\<open>{"page": int, "text": str}\<close>, built by \<open>extract_text_from_pdf\<close>.\<close>

record page_info =
  pi_page :: int
  pi_text :: string

text \<open>\<open>{"text": chunk, "page": page}\<close>, built by \<open>chunk_text\<close>.\<close>

record text_chunk =
  tc_text :: string
  tc_page :: int

text \<open>The \<open>meta\<close> dictionary of a vector record, \<open>{"text", "page", "filename"}\<close>.\<close>

record meta =
  meta_text :: "string option"
  meta_page :: "int option"
  meta_filename :: "string option"

text \<open>\<open>{"id", "vector", "meta"}\<close>, built by \<open>ingest_pdf\<close>.\<close>

record vector_record =
  vr_id :: string
  vr_vector :: "real list"
  vr_meta :: meta

text \<open>One item of the response of \<open>index.query\<close>: \<open>{"meta": {...}, "similarity": float}\<close>,
  either key possibly missing.\<close>

record query_item =
  item_meta :: "meta option"
  item_similarity :: "real option"

text \<open>A retrieved chunk, \<open>{"text", "page", "filename", "score"}\<close>; \<open>_build_prompt\<close>
  reads its keys with \<open>.get\<close>.\<close>

record chunk =
  c_text :: "string option"
  c_page :: "int option"
  c_filename :: "string option"
  c_score :: "real option"

text \<open>The dictionary returned by \<open>ask\<close>.  The answer is \<open>None\<close> only if
  \<open>generate_answer\<close> falls off the end of its loop.\<close>

record ask_result =
  answer :: "string option"
  sources :: "chunk list"

text \<open>Exceptions.  \<open>Raised msg\<close> is an exception raised inside an external library,
  with \<open>msg\<close> its \<open>str(e)\<close>; \<open>MemoryError\<close> is what the interpreter raises when a
  list cannot grow any further.\<close>

datatype exn = ValueError string | IndexError | HTTPError nat | Raised string | MemoryError

text \<open>What the language-model backend answers to one \<open>generate_content\<close> call: a
  response with its \<open>.text\<close>, or an exception with its \<open>str(e)\<close>.\<close>

datatype llm_response = Text string | Raises string

section \<open>The process state and the external collaborators\<close>

text \<open>Every call that leaves the process is recorded, in order.  An object created by a
  constructor is identified by the length of the trace at its creation, so two
  constructions never give the same object.\<close>

datatype event =
    LoadModel string
  | Encode nat "string list"
  | EncodeQuery nat string
  | CreateIndex
  | GetIndex string
  | Upsert "vector_record list"
  | Query "real list" int
  | NewClient string
  | GenerateContent nat string
  | Sleep int

text \<open>The module globals \<open>ingestor._model\<close>, \<open>retriever._model\<close> and
  \<open>generator._client\<close> (\<open>None\<close>, or the object held), and the trace.\<close>

record state =
  ingestor_model :: "nat option"
  retriever_model :: "nat option"
  generator_client :: "nat option"
  trace :: "event list"

definition initial_state :: state where
  "initial_state =
     \<lparr>ingestor_model = None, retriever_model = None, generator_client = None, trace = []\<rparr>"

definition record_call :: "event \<Rightarrow> state \<Rightarrow> state" where
  "record_call e s = s\<lparr>trace := trace s @ [e]\<rparr>"

text \<open>The collaborators outside the repository, as the answers they give: the PDF library
  (the texts of the pages of a file, or an exception), the embedding model, the UUID
  generator (indexed by the time of the call and the position of the record), the HTTP
  response to the index creation (an exception, or the status code), the Endee SDK, the
  process environment, and the language model, whose answer may depend on how many
  \<open>generate_content\<close> calls the process has made before.\<close>

record world =
  fitz_open :: "string \<Rightarrow> exn + string list"
  st_encode :: "string list \<Rightarrow> exn + real list list"
  st_encode_one :: "string \<Rightarrow> exn + real list"
  uuid4 :: "nat \<Rightarrow> nat \<Rightarrow> string"
  post_create_index :: "exn + nat"
  get_index :: "string \<Rightarrow> exn option"
  index_upsert :: "vector_record list \<Rightarrow> exn option"
  index_query :: "real list \<Rightarrow> int \<Rightarrow> exn + query_item list"
  getenv :: "string \<Rightarrow> string option"
  generate_content :: "nat \<Rightarrow> string \<Rightarrow> llm_response"

fun is_generate :: "event \<Rightarrow> bool" where
  "is_generate (GenerateContent c p) = True"
| "is_generate _ = False"

definition llm_calls :: "event list \<Rightarrow> nat" where
  "llm_calls tr = length (filter is_generate tr)"

section \<open>ingestor.py\<close>

definition INDEX_NAME :: string where "INDEX_NAME = ''documents''"
definition EMBEDDING_DIM :: int where "EMBEDDING_DIM = 384"
definition CHUNK_SIZE :: int where "CHUNK_SIZE = 500"
definition CHUNK_OVERLAP :: int where "CHUNK_OVERLAP = 50"
definition BATCH_SIZE :: int where "BATCH_SIZE = 500"

definition MODEL_NAME :: string where "MODEL_NAME = ''all-MiniLM-L6-v2''"

text \<open>\<open>ingestor._get_model\<close>: the module's own global, filled on first use.\<close>

definition ingestor_get_model :: "state \<Rightarrow> nat \<times> state" where
  "ingestor_get_model s =
     (case ingestor_model s of
        None \<Rightarrow> (let m = length (trace s)
                 in (m, (record_call (LoadModel MODEL_NAME) s)\<lparr>ingestor_model := Some m\<rparr>))
      | Some m \<Rightarrow> (m, s))"

text \<open>\<open>extract_text_from_pdf\<close>: the pages whose text is not only whitespace, numbered
  from 1.\<close>

fun extract_pages :: "string list \<Rightarrow> nat \<Rightarrow> page_info list \<Rightarrow> page_info list" where
  "extract_pages [] page_num pages = pages"
| "extract_pages (t # doc) page_num pages =
     extract_pages doc (page_num + 1)
       (if strip_nonempty t then pages @ [\<lparr>pi_page = int page_num + 1, pi_text = t\<rparr>] else pages)"

definition extract_text_from_pdf :: "world \<Rightarrow> string \<Rightarrow> exn + page_info list" where
  "extract_text_from_pdf w pdf_path =
     (case fitz_open w pdf_path of
        Inl e \<Rightarrow> Inl e
      | Inr doc \<Rightarrow> Inr (extract_pages doc 0 []))"

text \<open>\<open>chunk_text\<close>, on an interpreter with unbounded memory.  The \<open>while\<close> loop over
  one page may then run for ever, so it is a partial function: \<open>None\<close> is "the loop
  never ends by itself", \<open>Some (Inr chunks)\<close> a normal return and \<open>Some (Inl e)\<close> a
  raised exception (the loop has no \<open>raise\<close>, and a slice never fails).  Whenever the
  loop ends by itself this is exactly what the code computes.  A loop that never ends
  appends a chunk in every round, so on a real interpreter it is cut short by
  \<open>MemoryError\<close>: that run is \<open>chunk_text_mem\<close> below.\<close>

partial_function (option) chunk_while ::
  "string \<Rightarrow> int \<Rightarrow> int \<Rightarrow> int \<Rightarrow> int \<Rightarrow> text_chunk list \<Rightarrow> (exn + text_chunk list) option" where
  "chunk_while text page chunk_size overlap start chunks =
     (if start < int (length text)
      then chunk_while text page chunk_size overlap (start + (chunk_size - overlap))
             (chunks @ [\<lparr>tc_text = py_slice text start (start + chunk_size), tc_page = page\<rparr>])
      else Some (Inr chunks))"

declare chunk_while.simps [code]

fun chunk_pages ::
  "page_info list \<Rightarrow> int \<Rightarrow> int \<Rightarrow> text_chunk list \<Rightarrow> (exn + text_chunk list) option" where
  "chunk_pages [] chunk_size overlap chunks = Some (Inr chunks)"
| "chunk_pages (page_info # pages) chunk_size overlap chunks =
     (case chunk_while (pi_text page_info) (pi_page page_info) chunk_size overlap 0 chunks of
        None \<Rightarrow> None
      | Some (Inl e) \<Rightarrow> Some (Inl e)
      | Some (Inr chunks') \<Rightarrow> chunk_pages pages chunk_size overlap chunks')"

definition chunk_text :: "page_info list \<Rightarrow> int \<Rightarrow> int \<Rightarrow> (exn + text_chunk list) option" where
  "chunk_text pages chunk_size overlap = chunk_pages pages chunk_size overlap []"

text \<open>\<open>chunk_text\<close>, on an interpreter whose memory holds at most \<open>cap\<close> chunks: the same
  loops, except that the \<open>append\<close> to a list of \<open>cap\<close> chunks raises \<open>MemoryError\<close>.
  Every run now ends, with the chunks or with the exception.\<close>

function chunk_while_mem ::
  "nat \<Rightarrow> string \<Rightarrow> int \<Rightarrow> int \<Rightarrow> int \<Rightarrow> int \<Rightarrow> text_chunk list \<Rightarrow> exn + text_chunk list" where
  "chunk_while_mem cap text page chunk_size overlap start chunks =
     (if start < int (length text)
      then (if cap \<le> length chunks then Inl MemoryError
            else chunk_while_mem cap text page chunk_size overlap (start + (chunk_size - overlap))
                   (chunks @ [\<lparr>tc_text = py_slice text start (start + chunk_size),
                                tc_page = page\<rparr>]))
      else Inr chunks)"
  by pat_completeness auto
termination
  by (relation "measure (\<lambda>(cap, text, page, chunk_size, overlap, start, chunks).
                            cap - length chunks)") auto

declare chunk_while_mem.simps [simp del]

fun chunk_pages_mem ::
  "nat \<Rightarrow> page_info list \<Rightarrow> int \<Rightarrow> int \<Rightarrow> text_chunk list \<Rightarrow> exn + text_chunk list" where
  "chunk_pages_mem cap [] chunk_size overlap chunks = Inr chunks"
| "chunk_pages_mem cap (page_info # pages) chunk_size overlap chunks =
     (case chunk_while_mem cap (pi_text page_info) (pi_page page_info) chunk_size overlap 0 chunks of
        Inl e \<Rightarrow> Inl e
      | Inr chunks' \<Rightarrow> chunk_pages_mem cap pages chunk_size overlap chunks')"

definition chunk_text_mem :: "nat \<Rightarrow> page_info list \<Rightarrow> int \<Rightarrow> int \<Rightarrow> exn + text_chunk list" where
  "chunk_text_mem cap pages chunk_size overlap = chunk_pages_mem cap pages chunk_size overlap []"

text \<open>\<open>_ensure_index\<close>: status 409 is accepted; otherwise \<open>raise_for_status\<close> raises for
  a status from 400 to 599.\<close>

definition ensure_index :: "world \<Rightarrow> state \<Rightarrow> (exn + unit) \<times> state" where
  "ensure_index w s =
     (let s' = record_call CreateIndex s
      in case post_create_index w of
           Inl e \<Rightarrow> (Inl e, s')
         | Inr status_code \<Rightarrow>
             if status_code = 409 then (Inr (), s')
             else if 400 \<le> status_code \<and> status_code < 600 then (Inl (HTTPError status_code), s')
             else (Inr (), s'))"

text \<open>Step 4 of \<open>ingest_pdf\<close>: one record per chunk; \<open>embeddings[i]\<close> raises when the
  model returned fewer rows than texts.\<close>

fun build_vectors ::
  "(nat \<Rightarrow> string) \<Rightarrow> string \<Rightarrow> real list list \<Rightarrow> text_chunk list \<Rightarrow> nat \<Rightarrow>
   vector_record list \<Rightarrow> exn + vector_record list" where
  "build_vectors ids filename embeddings [] i vectors = Inr vectors"
| "build_vectors ids filename embeddings (chunk # chunks) i vectors =
     (if i < length embeddings
      then build_vectors ids filename embeddings chunks (i + 1)
             (vectors @ [\<lparr>vr_id = ids i, vr_vector = embeddings ! i,
                          vr_meta = \<lparr>meta_text = Some (tc_text chunk),
                                     meta_page = Some (tc_page chunk),
                                     meta_filename = Some filename\<rparr>\<rparr>])
      else Inl IndexError)"

text \<open>Step 5 of \<open>ingest_pdf\<close>: \<open>for start in range(0, len(vectors), BATCH_SIZE)\<close>; an
  exception of \<open>index.upsert\<close> ends the loop.\<close>

function upsert_batches ::
  "world \<Rightarrow> vector_record list \<Rightarrow> int \<Rightarrow> state \<Rightarrow> (exn + unit) \<times> state" where
  "upsert_batches w vectors start s =
     (if start < int (length vectors)
      then (let batch = py_slice vectors start (start + BATCH_SIZE);
                s' = record_call (Upsert batch) s
            in case index_upsert w batch of
                 Some e \<Rightarrow> (Inl e, s')
               | None \<Rightarrow> upsert_batches w vectors (start + BATCH_SIZE) s')
      else (Inr (), s))"
  by pat_completeness auto
termination
  by (relation "measure (\<lambda>(w, vectors, start, s). nat (int (length vectors) - start))")
     (auto simp: BATCH_SIZE_def)

declare upsert_batches.simps [simp del]

definition ingest_pdf ::
  "world \<Rightarrow> string \<Rightarrow> string \<Rightarrow> state \<Rightarrow> ((exn + int) \<times> state) option" where
  "ingest_pdf w pdf_path filename s =
     (case extract_text_from_pdf w pdf_path of
        Inl e \<Rightarrow> Some (Inl e, s)
      | Inr pages \<Rightarrow>
          if pages = [] then Some (Inr 0, s)
          else
            (case chunk_text pages CHUNK_SIZE CHUNK_OVERLAP of
               None \<Rightarrow> None
             | Some (Inl e) \<Rightarrow> Some (Inl e, s)
             | Some (Inr chunks) \<Rightarrow>
                 if chunks = [] then Some (Inr 0, s)
                 else
                   (let (model, s1) = ingestor_get_model s;
                        texts = map tc_text chunks;
                        s2 = record_call (Encode model texts) s1
                    in case st_encode w texts of
                         Inl e \<Rightarrow> Some (Inl e, s2)
                       | Inr embeddings \<Rightarrow>
                           (case build_vectors (uuid4 w (length (trace s2))) filename
                                   embeddings chunks 0 [] of
                              Inl e \<Rightarrow> Some (Inl e, s2)
                            | Inr vectors \<Rightarrow>
                                (case ensure_index w s2 of
                                   (Inl e, s3) \<Rightarrow> Some (Inl e, s3)
                                 | (Inr u, s3) \<Rightarrow>
                                     (let s4 = record_call (GetIndex INDEX_NAME) s3
                                      in case get_index w INDEX_NAME of
                                           Some e \<Rightarrow> Some (Inl e, s4)
                                         | None \<Rightarrow>
                                             (case upsert_batches w vectors 0 s4 of
                                                (Inl e, s5) \<Rightarrow> Some (Inl e, s5)
                                              | (Inr u', s5) \<Rightarrow>
                                                  Some (Inr (int (length vectors)), s5))))))))"

section \<open>retriever.py\<close>

definition TOP_K :: int where "TOP_K = 5"

text \<open>\<open>retriever._get_model\<close>: a second global, of the retriever module.\<close>

definition retriever_get_model :: "state \<Rightarrow> nat \<times> state" where
  "retriever_get_model s =
     (case retriever_model s of
        None \<Rightarrow> (let m = length (trace s)
                 in (m, (record_call (LoadModel MODEL_NAME) s)\<lparr>retriever_model := Some m\<rparr>))
      | Some m \<Rightarrow> (m, s))"

text \<open>Step 3 of \<open>retrieve\<close>: \<open>meta = item.get("meta", {})\<close>, then one dictionary per
  item with the defaults of the four \<open>.get\<close> calls.\<close>

definition empty_meta :: meta where
  "empty_meta = \<lparr>meta_text = None, meta_page = None, meta_filename = None\<rparr>"

definition get_default :: "'a option \<Rightarrow> 'a \<Rightarrow> 'a" where
  "get_default field d = (case field of None \<Rightarrow> d | Some v \<Rightarrow> v)"

fun format_results :: "query_item list \<Rightarrow> chunk list \<Rightarrow> chunk list" where
  "format_results [] chunks = chunks"
| "format_results (item # results) chunks =
     (let m = get_default (item_meta item) empty_meta
      in format_results results
           (chunks @ [\<lparr>c_text = Some (get_default (meta_text m) ''''),
                        c_page = Some (get_default (meta_page m) 0),
                        c_filename = Some (get_default (meta_filename m) ''''),
                        c_score = Some (get_default (item_similarity item) 0)\<rparr>]))"

definition retrieve :: "world \<Rightarrow> string \<Rightarrow> int \<Rightarrow> state \<Rightarrow> (exn + chunk list) \<times> state" where
  "retrieve w question top_k s =
     (let (model, s1) = retriever_get_model s;
          s2 = record_call (EncodeQuery model question) s1
      in case st_encode_one w question of
           Inl e \<Rightarrow> (Inl e, s2)
         | Inr query_vector \<Rightarrow>
             (let s3 = record_call (GetIndex INDEX_NAME) s2
              in case get_index w INDEX_NAME of
                   Some e \<Rightarrow> (Inl e, s3)
                 | None \<Rightarrow>
                     (let s4 = record_call (Query query_vector top_k) s3
                      in case index_query w query_vector top_k of
                           Inl e \<Rightarrow> (Inl e, s4)
                         | Inr results \<Rightarrow> (Inr (format_results results []), s4))))"

section \<open>generator.py\<close>

definition KEY_MISSING :: string where
  "KEY_MISSING = ''GEMINI_API_KEY is not set. Add your key to the .env file. Get a free key at https://aistudio.google.com''"

definition PLACEHOLDER :: string where
  "PLACEHOLDER = ''your-gemini-api-key-here''"

text \<open>\<open>_get_client\<close>: the credential is read and checked only while the global is
  \<open>None\<close>.\<close>

definition get_client :: "world \<Rightarrow> state \<Rightarrow> (exn + nat) \<times> state" where
  "get_client w s =
     (case generator_client s of
        None \<Rightarrow>
          (let api_key = getenv w ''GEMINI_API_KEY''
           in if api_key = None \<or> api_key = Some [] \<or> api_key = Some PLACEHOLDER
              then (Inl (ValueError KEY_MISSING), s)
              else (let c = length (trace s)
                    in (Inr c, (record_call (NewClient (the api_key)) s)
                                 \<lparr>generator_client := Some c\<rparr>)))
      | Some c \<Rightarrow> (Inr c, s))"

text \<open>\<open>_build_prompt\<close>: the loop over \<open>enumerate(chunks, start=1)\<close>, the join and the
  final f-string.\<close>

definition render_chunk :: "int \<Rightarrow> chunk \<Rightarrow> string" where
  "render_chunk i chunk =
     ''[Chunk '' @ str_int i @ '' | Page ''
       @ (case c_page chunk of None \<Rightarrow> ''?'' | Some p \<Rightarrow> str_int p) @ '' | ''
       @ ''File: '' @ get_default (c_filename chunk) ''?'' @ '']\<newline>''
       @ get_default (c_text chunk) ''''"

fun context_parts_loop :: "chunk list \<Rightarrow> int \<Rightarrow> string list \<Rightarrow> string list" where
  "context_parts_loop [] i context_parts = context_parts"
| "context_parts_loop (chunk # chunks) i context_parts =
     context_parts_loop chunks (i + 1) (context_parts @ [render_chunk i chunk])"

definition build_prompt :: "string \<Rightarrow> chunk list \<Rightarrow> string" where
  "build_prompt question chunks =
     (let context_parts = context_parts_loop chunks 1 [];
          context_block = join ''\<newline>\<newline>'' context_parts
      in ''Answer the following question using ONLY the context provided below. ''
         @ ''If the answer cannot be found in the context, clearly state that ''
         @ ''the information is not available in the provided document.\<newline>\<newline>''
         @ ''Context:\<newline>'' @ context_block @ ''\<newline>\<newline>''
         @ ''Question: '' @ question @ ''\<newline>\<newline>''
         @ ''Answer:'')"

text \<open>\<open>generate_answer\<close>: the loop \<open>for attempt in range(max_retries)\<close>.  The rate-limit
  signal is the test \<open>"429" in str(e)\<close>.  After the last round of the loop the function
  would return \<open>None\<close>.\<close>

definition max_retries :: int where "max_retries = 3"

definition rate_limited :: "string \<Rightarrow> bool" where
  "rate_limited msg = sublist ''429'' msg"

function generate_loop ::
  "world \<Rightarrow> nat \<Rightarrow> string \<Rightarrow> int \<Rightarrow> state \<Rightarrow> (exn + string option) \<times> state" where
  "generate_loop w client prompt attempt s =
     (if attempt < max_retries
      then (let s' = record_call (GenerateContent client prompt) s
            in case generate_content w (llm_calls (trace s)) prompt of
                 Text t \<Rightarrow> (Inr (Some t), s')
               | Raises msg \<Rightarrow>
                   if rate_limited msg \<and> attempt < max_retries - 1
                   then (let wait = 20 * (attempt + 1)
                         in generate_loop w client prompt (attempt + 1) (record_call (Sleep wait) s'))
                   else (Inl (Raised msg), s'))
      else (Inr None, s))"
  by pat_completeness auto
termination
  by (relation "measure (\<lambda>(w, client, prompt, attempt, s). nat (max_retries - attempt))") auto

declare generate_loop.simps [simp del]

definition generate_answer ::
  "world \<Rightarrow> string \<Rightarrow> chunk list \<Rightarrow> state \<Rightarrow> (exn + string option) \<times> state" where
  "generate_answer w question chunks s =
     (case get_client w s of
        (Inl e, s1) \<Rightarrow> (Inl e, s1)
      | (Inr client, s1) \<Rightarrow>
          (let prompt = build_prompt question chunks
           in generate_loop w client prompt 0 s1))"

section \<open>pipeline.py\<close>

definition ask :: "world \<Rightarrow> string \<Rightarrow> state \<Rightarrow> (exn + ask_result) \<times> state" where
  "ask w question s =
     (case retrieve w question TOP_K s of
        (Inl e, s1) \<Rightarrow> (Inl e, s1)
      | (Inr srcs, s1) \<Rightarrow>
          (case generate_answer w question srcs s1 of
             (Inl e, s2) \<Rightarrow> (Inl e, s2)
           | (Inr ans, s2) \<Rightarrow> (Inr \<lparr>answer = ans, sources = srcs\<rparr>, s2)))"

section \<open>Definitions used to state the properties\<close>

text \<open>The chunk count as the specification words it, for a page of length \<open>L\<close>, window
  \<open>W\<close> and overlap \<open>O\<close>: \<open>ceil(max(L - O, 1) / (W - O))\<close>.  It is compared with what
  \<open>chunk_text\<close> computes.\<close>

definition spec_chunk_count :: "int \<Rightarrow> int \<Rightarrow> int \<Rightarrow> int" where
  "spec_chunk_count len window ovl =
     \<lceil>real_of_int (max (len - ovl) 1) / real_of_int (window - ovl)\<rceil>"

text \<open>The batches handed to \<open>index.upsert\<close> in a trace, in call order.\<close>

fun upsert_calls :: "event list \<Rightarrow> vector_record list list" where
  "upsert_calls [] = []"
| "upsert_calls (Upsert batch # tr) = batch # upsert_calls tr"
| "upsert_calls (e # tr) = upsert_calls tr"

text \<open>The events of a trace that concern the language-model client: its construction
  and the calls made through it.\<close>

fun is_new_client :: "event \<Rightarrow> bool" where
  "is_new_client (NewClient k) = True"
| "is_new_client _ = False"

definition client_events :: "event list \<Rightarrow> event list" where
  "client_events tr = filter (\<lambda>e. is_new_client e \<or> is_generate e) tr"

text \<open>The credential test of \<open>_get_client\<close>: \<open>not api_key or api_key == placeholder\<close>.\<close>

definition credential_missing :: "world \<Rightarrow> bool" where
  "credential_missing w =
     (getenv w ''GEMINI_API_KEY'' = None \<or> getenv w ''GEMINI_API_KEY'' = Some []
      \<or> getenv w ''GEMINI_API_KEY'' = Some PLACEHOLDER)"

text \<open>The state of the client global agrees with the history of the process: while the
  global is unset no client was created or used; once it holds a client, the credential
  is present, that client is the only one ever created, it was created with the
  credential before any call, and every call went through it.\<close>

fun made_with :: "nat \<Rightarrow> event \<Rightarrow> bool" where
  "made_with c (GenerateContent c' p) = (c' = c)"
| "made_with c _ = False"

definition client_ok :: "world \<Rightarrow> state \<Rightarrow> bool" where
  "client_ok w s =
     (case generator_client s of
        None \<Rightarrow> client_events (trace s) = []
      | Some c \<Rightarrow>
          \<not> credential_missing w
          \<and> (case client_events (trace s) of
                [] \<Rightarrow> False
              | e # es \<Rightarrow> e = NewClient (the (getenv w ''GEMINI_API_KEY''))
                           \<and> list_all (made_with c) es))"

text \<open>The states of one process lifetime: the process starts with its three globals
  unset and an empty trace, and then runs the four public operations any number of
  times, in any order, with any arguments.\<close>

inductive reachable :: "world \<Rightarrow> state \<Rightarrow> bool" for w :: world where
  start: "reachable w initial_state"
| after_ingest:
    "reachable w s \<Longrightarrow> ingest_pdf w pdf_path filename s = Some (r, s') \<Longrightarrow> reachable w s'"
| after_retrieve:
    "reachable w s \<Longrightarrow> retrieve w question top_k s = (r, s') \<Longrightarrow> reachable w s'"
| after_generate:
    "reachable w s \<Longrightarrow> generate_answer w question chunks s = (r, s') \<Longrightarrow> reachable w s'"
| after_ask:
    "reachable w s \<Longrightarrow> ask w question s = (r, s') \<Longrightarrow> reachable w s'"

text \<open>A deterministic stand-in for the collaborators, for running the operations on
  concrete inputs: every PDF has the given page texts, every embedding is the empty
  vector, the index accepts every call and answers every query with the given items,
  the environment holds the given credential, and the language model answers its
  \<open>k\<close>-th call with the \<open>k\<close>-th entry of a script (an error 503 once the script is
  exhausted).\<close>

definition fake_world ::
  "string list \<Rightarrow> query_item list \<Rightarrow> string option \<Rightarrow> llm_response list \<Rightarrow> world" where
  "fake_world doc items key script =
     \<lparr>fitz_open = (\<lambda>path. Inr doc),
      st_encode = (\<lambda>texts. Inr (map (\<lambda>t. []) texts)),
      st_encode_one = (\<lambda>t. Inr []),
      uuid4 = (\<lambda>t i. str_nat t @ ''-'' @ str_nat i),
      post_create_index = Inr 200,
      get_index = (\<lambda>name. None),
      index_upsert = (\<lambda>batch. None),
      index_query = (\<lambda>v k. Inr items),
      getenv = (\<lambda>name. if name = ''GEMINI_API_KEY'' then key else None),
      generate_content = (\<lambda>k prompt. if k < length script then script ! k else Raises ''503'')\<rparr>"

text \<open>What one operation may do to the two model globals: each is left as it was, or
  was unset and now holds the object created at the time the operation began; and the
  two are never both filled by one operation.  Two handles are distinct when each
  holds an object created before now and they do not hold the same object.\<close>

definition models_step :: "state \<Rightarrow> state \<Rightarrow> bool" where
  "models_step s s' =
     (length (trace s) \<le> length (trace s')
      \<and> (ingestor_model s' = ingestor_model s
          \<or> ingestor_model s = None \<and> ingestor_model s' = Some (length (trace s))
             \<and> length (trace s) < length (trace s') \<and> retriever_model s' = retriever_model s)
      \<and> (retriever_model s' = retriever_model s
          \<or> retriever_model s = None \<and> retriever_model s' = Some (length (trace s))
             \<and> length (trace s) < length (trace s') \<and> ingestor_model s' = ingestor_model s))"

definition models_distinct :: "state \<Rightarrow> bool" where
  "models_distinct s =
     ((\<forall>a. ingestor_model s = Some a \<longrightarrow> a < length (trace s))
      \<and> (\<forall>b. retriever_model s = Some b \<longrightarrow> b < length (trace s))
      \<and> (\<forall>a b. ingestor_model s = Some a \<and> retriever_model s = Some b \<longrightarrow> a \<noteq> b))"

section \<open>The chunker\<close>

text \<open>With a positive stride, the window start \<open>k * stride\<close> lies inside a text of
  length \<open>L\<close> exactly for the first \<open>ceil(L / stride)\<close> values of \<open>k\<close>.\<close>

lemma window_count_iff:
  fixes stride :: int
  assumes "0 < stride"
  shows "(int k * stride < int L) = (k < nat \<lceil>real L / real_of_int stride\<rceil>)"
proof -
  have "(k < nat \<lceil>real L / real_of_int stride\<rceil>) = (int k < \<lceil>real L / real_of_int stride\<rceil>)"
    by (rule zless_nat_eq_int_zless)
  also have "\<dots> = (real_of_int (int k) < real L / real_of_int stride)"
    by (rule less_ceiling_iff)
  also have "\<dots> = (real_of_int (int k) * real_of_int stride < real L)"
    using assms by (simp add: pos_less_divide_eq)
  also have "\<dots> = (real_of_int (int k * stride) < real_of_int (int L))"
    by simp
  also have "\<dots> = (int k * stride < int L)"
    by (rule of_int_less_iff)
  finally show ?thesis by simp
qed

text \<open>The loop over one page, entered at the \<open>k\<close>-th window position, appends the
  remaining windows and returns.\<close>

lemma chunk_while_windows:
  assumes "0 < chunk_size - overlap"
  shows "chunk_while tx page chunk_size overlap (int k * (chunk_size - overlap)) chunks =
         Some (Inr (chunks @
           map (\<lambda>i. \<lparr>tc_text = py_slice tx (int i * (chunk_size - overlap))
                                   (int i * (chunk_size - overlap) + chunk_size),
                      tc_page = page\<rparr>)
             [k ..< nat \<lceil>real (length tx) / real_of_int (chunk_size - overlap)\<rceil>]))"
proof -
  define n where "n = nat \<lceil>real (length tx) / real_of_int (chunk_size - overlap)\<rceil>"
  define win where "win = (\<lambda>i. \<lparr>tc_text = py_slice tx (int i * (chunk_size - overlap))
                                   (int i * (chunk_size - overlap) + chunk_size),
                                 tc_page = page\<rparr>)"
  have iff: "\<And>j. (int j * (chunk_size - overlap) < int (length tx)) = (j < n)"
    unfolding n_def by (rule window_count_iff[OF assms])
  have "chunk_while tx page chunk_size overlap (int k * (chunk_size - overlap)) chunks =
         Some (Inr (chunks @ map win [k ..< n]))"
  proof (induction "n - k" arbitrary: k chunks)
    case 0
    then have "\<not> k < n" by simp
    then have "\<not> int k * (chunk_size - overlap) < int (length tx)"
      using iff by simp
    moreover from 0 have "[k ..< n] = []"
      by simp
    ultimately show ?case
      by (subst chunk_while.simps) simp
  next
    case (Suc d)
    from Suc(2) have kn: "k < n" by simp
    then have lt: "int k * (chunk_size - overlap) < int (length tx)"
      using iff by simp
    have step: "int k * (chunk_size - overlap) + (chunk_size - overlap)
                = int (Suc k) * (chunk_size - overlap)"
      by (simp add: algebra_simps)
    from Suc(2) have d: "d = n - Suc k" by simp
    have up: "[k ..< n] = k # [Suc k ..< n]"
      using kn by (simp add: upt_conv_Cons)
    show ?case
      apply (subst chunk_while.simps)
      apply (simp only: lt if_True step)
      apply (subst Suc(1)[OF d])
      apply (simp add: up win_def)
      done
  qed
  then show ?thesis unfolding n_def win_def .
qed

lemma chunk_pages_windows:
  assumes "0 < chunk_size - overlap"
  shows "chunk_pages pages chunk_size overlap chunks =
         Some (Inr (chunks @ concat (map (\<lambda>p.
           map (\<lambda>i. \<lparr>tc_text = py_slice (pi_text p) (int i * (chunk_size - overlap))
                                   (int i * (chunk_size - overlap) + chunk_size),
                      tc_page = pi_page p\<rparr>)
             [0 ..< nat \<lceil>real (length (pi_text p)) / real_of_int (chunk_size - overlap)\<rceil>])
           pages)))"
proof (induction pages arbitrary: chunks)
  case Nil
  show ?case by simp
next
  case (Cons p pages)
  have "chunk_while (pi_text p) (pi_page p) chunk_size overlap 0 chunks =
        Some (Inr (chunks @
           map (\<lambda>i. \<lparr>tc_text = py_slice (pi_text p) (int i * (chunk_size - overlap))
                                   (int i * (chunk_size - overlap) + chunk_size),
                      tc_page = pi_page p\<rparr>)
            [0 ..< nat \<lceil>real (length (pi_text p)) / real_of_int (chunk_size - overlap)\<rceil>]))"
    using chunk_while_windows[OF assms, of "pi_text p" "pi_page p" 0 chunks] by simp
  then show ?case
    by (simp add: Cons.IH)
qed

text \<open>With a stride that is not positive, the loop entered inside the text never
  leaves it: no run of it returns.\<close>

lemma chunk_while_returns_only_if:
  assumes "chunk_while tx page chunk_size overlap start chunks = Some y"
  shows "\<not> (chunk_size - overlap \<le> 0 \<and> start < int (length tx))"
proof (rule chunk_while.raw_induct
    [where P = "\<lambda>tx page chunk_size overlap start chunks y.
                  \<not> (chunk_size - overlap \<le> 0 \<and> start < int (length tx))", OF _ assms])
  fix loop :: "string \<Rightarrow> int \<Rightarrow> int \<Rightarrow> int \<Rightarrow> int \<Rightarrow> text_chunk list
               \<Rightarrow> (exn + text_chunk list) option"
  fix tx page chunk_size overlap start chunks y
  assume IH: "\<And>tx page chunk_size overlap start chunks y.
                loop tx page chunk_size overlap start chunks = Some y \<Longrightarrow>
                \<not> (chunk_size - overlap \<le> 0 \<and> start < int (length tx))"
    and body: "(if start < int (length tx)
                then loop tx page chunk_size overlap (start + (chunk_size - overlap))
                       (chunks @ [\<lparr>tc_text = py_slice tx start (start + chunk_size),
                                    tc_page = page\<rparr>])
                else Some (Inr chunks)) = Some y"
  show "\<not> (chunk_size - overlap \<le> 0 \<and> start < int (length tx))"
  proof
    assume a: "chunk_size - overlap \<le> 0 \<and> start < int (length tx)"
    with body have "loop tx page chunk_size overlap (start + (chunk_size - overlap))
        (chunks @ [\<lparr>tc_text = py_slice tx start (start + chunk_size), tc_page = page\<rparr>]) = Some y"
      by simp
    from IH[OF this] a show False by simp
  qed
qed

lemma chunk_while_diverges:
  "chunk_size - overlap \<le> 0 \<Longrightarrow> start < int (length tx) \<Longrightarrow>
   chunk_while tx page chunk_size overlap start chunks = None"
  using chunk_while_returns_only_if
  by (cases "chunk_while tx page chunk_size overlap start chunks") auto

lemma chunk_while_empty:
  "chunk_while [] page chunk_size overlap 0 chunks = Some (Inr chunks)"
  by (subst chunk_while.simps) simp

lemma chunk_pages_diverges:
  assumes "chunk_size - overlap \<le> 0" and "\<exists>p \<in> set pages. pi_text p \<noteq> []"
  shows "chunk_pages pages chunk_size overlap chunks = None"
  using assms(2)
proof (induction pages arbitrary: chunks)
  case Nil
  then show ?case by simp
next
  case (Cons p pages)
  show ?case
  proof (cases "pi_text p = []")
    case True
    with Cons.prems have "\<exists>p \<in> set pages. pi_text p \<noteq> []" by auto
    from Cons.IH[OF this] True show ?thesis
      by (simp add: chunk_while_empty)
  next
    case False
    then have "chunk_while (pi_text p) (pi_page p) chunk_size overlap 0 chunks = None"
      using assms(1) by (intro chunk_while_diverges) simp_all
    then show ?thesis by simp
  qed
qed

text \<open>
  C1 (as stated): a page of length \<open>L > 0\<close> yields \<open>ceil(max(L - O, 1) / (W - O))\<close>
  chunks.  The page \<open>abc\<close> with window 2 and overlap 1 yields three chunks, at the
  offsets 0, 1 and 2, where the formula gives two.
\<close>

theorem chunk_count_formula_counterexample:
  "chunk_text [\<lparr>pi_page = 1, pi_text = ''abc''\<rparr>] 2 1 =
     Some (Inr [\<lparr>tc_text = ''ab'', tc_page = 1\<rparr>, \<lparr>tc_text = ''bc'', tc_page = 1\<rparr>,
                \<lparr>tc_text = ''c'', tc_page = 1\<rparr>])
   \<and> spec_chunk_count (int (length ''abc'')) 2 1 = 2"
  by (simp add: chunk_text_def chunk_while.simps py_slice_def spec_chunk_count_def)

text \<open>
  C1 (amended): for window \<open>W\<close> and overlap \<open>O\<close> with \<open>0 \<le> O < W\<close>, \<open>chunk_text\<close>
  returns, in page order, for every page of length \<open>L\<close> exactly \<open>ceil(L / (W - O))\<close>
  chunks, the \<open>i\<close>-th of them (from 0) being the slice of the page from offset
  \<open>i * (W - O)\<close> to \<open>i * (W - O) + W\<close>, tagged with the page number.  So for \<open>L > 0\<close>
  there is a first chunk, starting at offset 0, and the end offset of the last
  window is at least \<open>L\<close>.
\<close>

theorem chunk_text_windows:
  assumes "0 \<le> overlap" and "overlap < chunk_size"
  shows "chunk_text pages chunk_size overlap =
           Some (Inr (concat (map (\<lambda>p.
             map (\<lambda>i. \<lparr>tc_text = py_slice (pi_text p) (int i * (chunk_size - overlap))
                                     (int i * (chunk_size - overlap) + chunk_size),
                        tc_page = pi_page p\<rparr>)
               [0 ..< nat \<lceil>real (length (pi_text p)) / real_of_int (chunk_size - overlap)\<rceil>])
             pages)))
         \<and> (\<forall>p \<in> set pages. pi_text p \<noteq> [] \<longrightarrow>
               0 < \<lceil>real (length (pi_text p)) / real_of_int (chunk_size - overlap)\<rceil>
             \<and> int (length (pi_text p))
                 \<le> (\<lceil>real (length (pi_text p)) / real_of_int (chunk_size - overlap)\<rceil> - 1)
                      * (chunk_size - overlap) + chunk_size)"
proof (intro conjI ballI impI)
  from assms have pos: "0 < chunk_size - overlap" by simp
  show "chunk_text pages chunk_size overlap =
           Some (Inr (concat (map (\<lambda>p.
             map (\<lambda>i. \<lparr>tc_text = py_slice (pi_text p) (int i * (chunk_size - overlap))
                                     (int i * (chunk_size - overlap) + chunk_size),
                        tc_page = pi_page p\<rparr>)
               [0 ..< nat \<lceil>real (length (pi_text p)) / real_of_int (chunk_size - overlap)\<rceil>])
             pages)))"
    unfolding chunk_text_def using chunk_pages_windows[OF pos, of pages "[]"] by simp
  fix p
  assume "p \<in> set pages" and ne: "pi_text p \<noteq> []"
  define L where "L = length (pi_text p)"
  define n where "n = nat \<lceil>real L / real_of_int (chunk_size - overlap)\<rceil>"
  from ne have "int 0 * (chunk_size - overlap) < int L"
    by (simp add: L_def)
  then have n_pos: "0 < n"
    unfolding n_def using window_count_iff[OF pos, of 0 L] by simp
  then have ceil: "\<lceil>real L / real_of_int (chunk_size - overlap)\<rceil> = int n"
    unfolding n_def by simp
  show "0 < \<lceil>real (length (pi_text p)) / real_of_int (chunk_size - overlap)\<rceil>"
    using ceil n_pos by (simp add: L_def)
  have "\<not> int n * (chunk_size - overlap) < int L"
    using window_count_iff[OF pos, of n L] by (simp add: n_def)
  then have "int L \<le> int n * (chunk_size - overlap)"
    by simp
  also have "\<dots> = (int n - 1) * (chunk_size - overlap) + (chunk_size - overlap)"
    by (simp add: algebra_simps)
  also have "\<dots> \<le> (int n - 1) * (chunk_size - overlap) + chunk_size"
    using assms by simp
  finally show "int (length (pi_text p))
                 \<le> (\<lceil>real (length (pi_text p)) / real_of_int (chunk_size - overlap)\<rceil> - 1)
                      * (chunk_size - overlap) + chunk_size"
    using ceil by (simp add: L_def)
qed

theorem chunk_text_windows_witness:
  "(0::int) \<le> 1 \<and> (1::int) < 2
   \<and> chunk_text [\<lparr>pi_page = 7, pi_text = ''abc''\<rparr>] 2 1 =
       Some (Inr [\<lparr>tc_text = ''ab'', tc_page = 7\<rparr>, \<lparr>tc_text = ''bc'', tc_page = 7\<rparr>,
                  \<lparr>tc_text = ''c'', tc_page = 7\<rparr>])
   \<and> int (length ''abc'') \<le> (3 - 1) * (2 - 1) + 2"
  using chunk_text_windows [of 1 2 "[\<lparr>pi_page = 7, pi_text = ''abc''\<rparr>]"]
  by (simp add: py_slice_def upt_rec)

text \<open>The same loops on an interpreter with bounded memory.  With a stride that is not
  positive the loop entered inside the text never leaves it, and ends when the list
  cannot grow.\<close>

lemma chunk_while_mem_stuck:
  "chunk_size - overlap \<le> 0 \<Longrightarrow> start < int (length tx) \<Longrightarrow>
   chunk_while_mem cap tx page chunk_size overlap start chunks = Inl MemoryError"
proof (induction "cap - length chunks" arbitrary: start chunks)
  case 0
  then show ?case
    by (simp add: chunk_while_mem.simps [of cap tx page chunk_size overlap start chunks])
next
  case (Suc d)
  from Suc(2) have lt: "\<not> cap \<le> length chunks" by simp
  let ?c = "\<lparr>tc_text = py_slice tx start (start + chunk_size), tc_page = page\<rparr>"
  from Suc(2) have d: "d = cap - length (chunks @ [?c])" by simp
  from Suc.prems have inside: "start + (chunk_size - overlap) < int (length tx)" by simp
  from Suc(1) [OF d Suc.prems(1) inside] lt Suc.prems(2) show ?case
    by (simp add: chunk_while_mem.simps [of cap tx page chunk_size overlap start chunks])
qed

lemma chunk_while_mem_empty:
  "chunk_while_mem cap [] page chunk_size overlap 0 chunks = Inr chunks"
  by (simp add: chunk_while_mem.simps)

lemma chunk_pages_mem_stuck:
  assumes "chunk_size - overlap \<le> 0" and "\<exists>p \<in> set pages. pi_text p \<noteq> []"
  shows "chunk_pages_mem cap pages chunk_size overlap chunks = Inl MemoryError"
  using assms(2)
proof (induction pages arbitrary: chunks)
  case Nil
  then show ?case by simp
next
  case (Cons p pages)
  show ?case
  proof (cases "pi_text p = []")
    case True
    with Cons.prems have "\<exists>p \<in> set pages. pi_text p \<noteq> []" by auto
    from Cons.IH [OF this] True show ?thesis
      by (simp add: chunk_while_mem_empty)
  next
    case False
    then have "chunk_while_mem cap (pi_text p) (pi_page p) chunk_size overlap 0 chunks
               = Inl MemoryError"
      using assms(1) by (intro chunk_while_mem_stuck) simp_all
    then show ?thesis by simp
  qed
qed

text \<open>The two runs agree: with room for \<open>cap\<close> chunks the call returns a list exactly
  when the call with unbounded memory returns it and it fits.\<close>

lemma chunk_while_mem_returns:
  "chunk_while_mem cap tx page chunk_size overlap start chunks = Inr r \<Longrightarrow>
   chunk_while tx page chunk_size overlap start chunks = Some (Inr r)"
proof (induction cap tx page chunk_size overlap start chunks rule: chunk_while_mem.induct)
  case (1 cap tx page chunk_size overlap start chunks)
  show ?case
  proof (cases "start < int (length tx)")
    case False
    then have "chunk_while_mem cap tx page chunk_size overlap start chunks = Inr chunks"
      and "chunk_while tx page chunk_size overlap start chunks = Some (Inr chunks)"
      by (simp_all add: chunk_while_mem.simps [of cap tx page chunk_size overlap start chunks]
                        chunk_while.simps [of tx page chunk_size overlap start chunks])
    with "1.prems" show ?thesis by simp
  next
    case True
    with "1.prems" have room: "\<not> cap \<le> length chunks"
      and run: "chunk_while_mem cap tx page chunk_size overlap (start + (chunk_size - overlap))
                 (chunks @ [\<lparr>tc_text = py_slice tx start (start + chunk_size), tc_page = page\<rparr>])
                = Inr r"
      by (auto simp: chunk_while_mem.simps [of cap tx page chunk_size overlap start chunks]
               split: if_splits)
    from "1.IH" [OF True room run] True show ?thesis
      by (subst chunk_while.simps) simp
  qed
qed

lemma chunk_pages_mem_returns:
  "chunk_pages_mem cap pages chunk_size overlap chunks = Inr r \<Longrightarrow>
   chunk_pages pages chunk_size overlap chunks = Some (Inr r)"
proof (induction pages arbitrary: chunks)
  case Nil
  then show ?case by simp
next
  case (Cons p pages)
  then obtain chunks' where
    w: "chunk_while_mem cap (pi_text p) (pi_page p) chunk_size overlap 0 chunks = Inr chunks'"
    and rest: "chunk_pages_mem cap pages chunk_size overlap chunks' = Inr r"
    by (auto split: sum.splits)
  from chunk_while_mem_returns [OF w] Cons.IH [OF rest] show ?case by simp
qed

lemma chunk_while_grows:
  assumes "chunk_while tx page chunk_size overlap start chunks = Some y"
  shows "\<forall>r. y = Inr r \<longrightarrow> length chunks \<le> length r
              \<and> (start < int (length tx) \<longrightarrow> length chunks < length r)"
proof (rule chunk_while.raw_induct
    [where P = "\<lambda>tx page chunk_size overlap start chunks y.
                  \<forall>r. y = Inr r \<longrightarrow> length chunks \<le> length r
                     \<and> (start < int (length tx) \<longrightarrow> length chunks < length r)", OF _ assms])
  fix loop :: "string \<Rightarrow> int \<Rightarrow> int \<Rightarrow> int \<Rightarrow> int \<Rightarrow> text_chunk list
               \<Rightarrow> (exn + text_chunk list) option"
  fix tx page chunk_size overlap start chunks y
  assume IH: "\<And>tx page chunk_size overlap start chunks y.
                loop tx page chunk_size overlap start chunks = Some y \<Longrightarrow>
                \<forall>r. y = Inr r \<longrightarrow> length chunks \<le> length r
                     \<and> (start < int (length tx) \<longrightarrow> length chunks < length r)"
    and body: "(if start < int (length tx)
                then loop tx page chunk_size overlap (start + (chunk_size - overlap))
                       (chunks @ [\<lparr>tc_text = py_slice tx start (start + chunk_size),
                                    tc_page = page\<rparr>])
                else Some (Inr chunks)) = Some y"
  show "\<forall>r. y = Inr r \<longrightarrow> length chunks \<le> length r
              \<and> (start < int (length tx) \<longrightarrow> length chunks < length r)"
  proof (cases "start < int (length tx)")
    case False
    with body show ?thesis by auto
  next
    case True
    with body have "loop tx page chunk_size overlap (start + (chunk_size - overlap))
        (chunks @ [\<lparr>tc_text = py_slice tx start (start + chunk_size), tc_page = page\<rparr>]) = Some y"
      by simp
    from IH [OF this] show ?thesis by auto
  qed
qed

lemma chunk_while_mem_enough:
  "chunk_while tx page chunk_size overlap start chunks = Some (Inr r) \<Longrightarrow> length r \<le> cap \<Longrightarrow>
   chunk_while_mem cap tx page chunk_size overlap start chunks = Inr r"
proof (induction cap tx page chunk_size overlap start chunks rule: chunk_while_mem.induct)
  case (1 cap tx page chunk_size overlap start chunks)
  show ?case
  proof (cases "start < int (length tx)")
    case False
    then have "chunk_while_mem cap tx page chunk_size overlap start chunks = Inr chunks"
      and "chunk_while tx page chunk_size overlap start chunks = Some (Inr chunks)"
      by (simp_all add: chunk_while_mem.simps [of cap tx page chunk_size overlap start chunks]
                        chunk_while.simps [of tx page chunk_size overlap start chunks])
    with "1.prems" show ?thesis by simp
  next
    case True
    from chunk_while_grows [OF "1.prems"(1)] True have "length chunks < length r" by simp
    with "1.prems"(2) have room: "\<not> cap \<le> length chunks" by simp
    from "1.prems"(1) True
    have run: "chunk_while tx page chunk_size overlap (start + (chunk_size - overlap))
                 (chunks @ [\<lparr>tc_text = py_slice tx start (start + chunk_size), tc_page = page\<rparr>])
               = Some (Inr r)"
      by (simp add: chunk_while.simps [of tx page chunk_size overlap start chunks])
    from "1.IH" [OF True room run "1.prems"(2)] True room show ?thesis
      by (simp add: chunk_while_mem.simps [of cap tx page chunk_size overlap start chunks])
  qed
qed

lemma chunk_pages_grows:
  "chunk_pages pages chunk_size overlap chunks = Some (Inr r) \<Longrightarrow> length chunks \<le> length r"
proof (induction pages arbitrary: chunks)
  case Nil
  then show ?case by simp
next
  case (Cons p pages)
  then obtain chunks' where
    w: "chunk_while (pi_text p) (pi_page p) chunk_size overlap 0 chunks = Some (Inr chunks')"
    and rest: "chunk_pages pages chunk_size overlap chunks' = Some (Inr r)"
    by (auto split: option.splits sum.splits)
  from chunk_while_grows [OF w] Cons.IH [OF rest] show ?case by simp
qed

lemma chunk_pages_mem_enough:
  "chunk_pages pages chunk_size overlap chunks = Some (Inr r) \<Longrightarrow> length r \<le> cap \<Longrightarrow>
   chunk_pages_mem cap pages chunk_size overlap chunks = Inr r"
proof (induction pages arbitrary: chunks)
  case Nil
  then show ?case by simp
next
  case (Cons p pages)
  then obtain chunks' where
    w: "chunk_while (pi_text p) (pi_page p) chunk_size overlap 0 chunks = Some (Inr chunks')"
    and rest: "chunk_pages pages chunk_size overlap chunks' = Some (Inr r)"
    by (auto split: option.splits sum.splits)
  from chunk_pages_grows [OF rest] Cons.prems(2) have "length chunks' \<le> cap" by simp
  from chunk_while_mem_enough [OF w this] Cons.IH [OF rest Cons.prems(2)] show ?case by simp
qed

lemma chunk_while_mem_fits:
  "chunk_while_mem cap tx page chunk_size overlap start chunks = Inr r \<Longrightarrow>
   length chunks \<le> cap \<Longrightarrow> length r \<le> cap"
proof (induction cap tx page chunk_size overlap start chunks rule: chunk_while_mem.induct)
  case (1 cap tx page chunk_size overlap start chunks)
  show ?case
  proof (cases "start < int (length tx)")
    case False
    then have "chunk_while_mem cap tx page chunk_size overlap start chunks = Inr chunks"
      by (simp add: chunk_while_mem.simps [of cap tx page chunk_size overlap start chunks])
    with "1.prems" show ?thesis by simp
  next
    case True
    with "1.prems" have room: "\<not> cap \<le> length chunks"
      and run: "chunk_while_mem cap tx page chunk_size overlap (start + (chunk_size - overlap))
                 (chunks @ [\<lparr>tc_text = py_slice tx start (start + chunk_size), tc_page = page\<rparr>])
                = Inr r"
      by (auto simp: chunk_while_mem.simps [of cap tx page chunk_size overlap start chunks]
               split: if_splits)
    from room have "length (chunks @ [\<lparr>tc_text = py_slice tx start (start + chunk_size),
                                       tc_page = page\<rparr>]) \<le> cap"
      by simp
    from "1.IH" [OF True room run this] show ?thesis .
  qed
qed

lemma chunk_pages_mem_fits:
  "chunk_pages_mem cap pages chunk_size overlap chunks = Inr r \<Longrightarrow>
   length chunks \<le> cap \<Longrightarrow> length r \<le> cap"
proof (induction pages arbitrary: chunks)
  case Nil
  then show ?case by simp
next
  case (Cons p pages)
  then obtain chunks' where
    w: "chunk_while_mem cap (pi_text p) (pi_page p) chunk_size overlap 0 chunks = Inr chunks'"
    and rest: "chunk_pages_mem cap pages chunk_size overlap chunks' = Inr r"
    by (auto split: sum.splits)
  from Cons.IH [OF rest chunk_while_mem_fits [OF w Cons.prems(2)]] show ?case .
qed

lemma chunk_text_mem_agrees:
  "chunk_text_mem cap pages chunk_size overlap = Inr r \<longleftrightarrow>
   chunk_text pages chunk_size overlap = Some (Inr r) \<and> length r \<le> cap"
proof
  assume a: "chunk_text_mem cap pages chunk_size overlap = Inr r"
  then have ret: "chunk_text pages chunk_size overlap = Some (Inr r)"
    unfolding chunk_text_mem_def chunk_text_def by (rule chunk_pages_mem_returns)
  from a have "length r \<le> cap"
    unfolding chunk_text_mem_def by (rule chunk_pages_mem_fits) simp
  with ret show "chunk_text pages chunk_size overlap = Some (Inr r) \<and> length r \<le> cap" by simp
next
  assume "chunk_text pages chunk_size overlap = Some (Inr r) \<and> length r \<le> cap"
  then show "chunk_text_mem cap pages chunk_size overlap = Inr r"
    unfolding chunk_text_mem_def chunk_text_def by (intro chunk_pages_mem_enough) simp_all
qed

text \<open>
  C2 (as stated): with \<open>overlap \<ge> chunk_size\<close> and a non-empty page, \<open>chunk_text\<close>
  fails fast with a configuration error.  For the page \<open>a\<close> with window 1 and overlap 1
  no configuration error is raised: the window start stays at 0, a chunk is appended in
  every round, and with room for three chunks the call ends with \<open>MemoryError\<close> (with
  unbounded memory it would not end).
\<close>

theorem chunk_text_no_config_error_counterexample:
  "chunk_text_mem 3 [\<lparr>pi_page = 1, pi_text = ''a''\<rparr>] 1 1 = Inl MemoryError
   \<and> chunk_text [\<lparr>pi_page = 1, pi_text = ''a''\<rparr>] 1 1 = None"
proof
  show "chunk_text_mem 3 [\<lparr>pi_page = 1, pi_text = ''a''\<rparr>] 1 1 = Inl MemoryError"
    by (simp add: chunk_text_mem_def chunk_while_mem.simps py_slice_def)
  show "chunk_text [\<lparr>pi_page = 1, pi_text = ''a''\<rparr>] 1 1 = None"
    unfolding chunk_text_def by (rule chunk_pages_diverges) simp_all
qed

text \<open>
  C2 (amended): for every call of \<open>chunk_text\<close> with \<open>overlap \<ge> chunk_size\<close> and at
  least one page with non-empty text, the call never returns normally and raises no
  configuration error: the loop on the first non-empty page never leaves the text, so
  whatever the memory of the interpreter the call ends with \<open>MemoryError\<close>, when the
  list of chunks cannot grow any further (and the loop would never end by itself).
\<close>

theorem chunk_text_nonpositive_stride_exhausts_memory:
  assumes "chunk_size \<le> overlap" and "\<exists>p \<in> set pages. pi_text p \<noteq> []"
  shows "chunk_text_mem cap pages chunk_size overlap = Inl MemoryError
       \<and> chunk_text pages chunk_size overlap = None"
proof
  from assms(1) have "chunk_size - overlap \<le> 0" by simp
  then show "chunk_text_mem cap pages chunk_size overlap = Inl MemoryError"
    unfolding chunk_text_mem_def using assms(2) by (rule chunk_pages_mem_stuck)
  show "chunk_text pages chunk_size overlap = None"
    unfolding chunk_text_def using assms by (intro chunk_pages_diverges) simp_all
qed

theorem chunk_text_nonpositive_stride_exhausts_memory_witness:
  "(2::int) \<le> 3
   \<and> (\<exists>p \<in> set [\<lparr>pi_page = 1, pi_text = ''''\<rparr>, \<lparr>pi_page = 2, pi_text = ''ab''\<rparr>]. pi_text p \<noteq> [])
   \<and> chunk_text_mem 1000 [\<lparr>pi_page = 1, pi_text = ''''\<rparr>, \<lparr>pi_page = 2, pi_text = ''ab''\<rparr>] 2 3
       = Inl MemoryError
   \<and> chunk_text [\<lparr>pi_page = 1, pi_text = ''''\<rparr>, \<lparr>pi_page = 2, pi_text = ''ab''\<rparr>] 2 3 = None"
proof -
  have h1: "(2::int) \<le> 3" by simp
  have h2: "\<exists>p \<in> set [\<lparr>pi_page = 1, pi_text = ''''\<rparr>, \<lparr>pi_page = 2, pi_text = ''ab''\<rparr>]. pi_text p \<noteq> []"
    by simp
  from chunk_text_nonpositive_stride_exhausts_memory [OF h1 h2, of 1000] h1 h2
  show ?thesis by (intro conjI) simp_all
qed

section \<open>The prompt builder\<close>

lemma context_parts_loop_eq:
  "context_parts_loop chunks i parts =
     parts @ map (\<lambda>k. render_chunk (i + int k) (chunks ! k)) [0 ..< length chunks]"
proof (induction chunks arbitrary: i parts)
  case Nil
  show ?case by simp
next
  case (Cons c chunks)
  have "map (\<lambda>k. render_chunk (i + int k) ((c # chunks) ! k)) [0 ..< Suc (length chunks)]
        = render_chunk i c # map (\<lambda>k. render_chunk (i + 1 + int k) (chunks ! k)) [0 ..< length chunks]"
    by (simp add: map_upt_Suc del: upt_Suc) (simp add: algebra_simps)
  then show ?case
    by (simp add: Cons.IH del: upt_Suc)
qed

text \<open>
  C7: for every question and chunk list, the prompt is the grounding instruction (answer
  using only the context; if the answer cannot be found there, state that the
  information is not available), then \<open>Context:\<close> and the context block, then the
  question: the whole context block comes before the question.  The context block holds
  one part per chunk, in input order, the parts separated by a blank line; part \<open>k\<close>
  (from 0) is the header line \<open>[Chunk k+1 | Page p | File: f]\<close> with the chunk's page
  number and file name, followed on the next line by the chunk's text.  A chunk without
  a page or file name shows \<open>?\<close> in its place, one without text the empty string.
\<close>

theorem build_prompt_format:
  "build_prompt question chunks =
     ''Answer the following question using ONLY the context provided below. If the answer cannot be found in the context, clearly state that the information is not available in the provided document.''
     @ ''\<newline>\<newline>Context:\<newline>''
     @ join ''\<newline>\<newline>''
         (map (\<lambda>k. ''[Chunk '' @ str_int (int k + 1)
                     @ '' | Page '' @ (case c_page (chunks ! k) of None \<Rightarrow> ''?'' | Some p \<Rightarrow> str_int p)
                     @ '' | File: '' @ (case c_filename (chunks ! k) of None \<Rightarrow> ''?'' | Some f \<Rightarrow> f)
                     @ '']'' @ ''\<newline>''
                     @ (case c_text (chunks ! k) of None \<Rightarrow> '''' | Some t \<Rightarrow> t))
            [0 ..< length chunks])
     @ ''\<newline>\<newline>Question: '' @ question @ ''\<newline>\<newline>Answer:''"
  by (simp add: build_prompt_def context_parts_loop_eq render_chunk_def get_default_def add.commute)

theorem build_prompt_format_witness:
  "build_prompt ''Why?''
     [\<lparr>c_text = Some ''alpha'', c_page = Some 12, c_filename = Some ''a.pdf'', c_score = Some 1\<rparr>,
      \<lparr>c_text = Some ''beta'', c_page = None, c_filename = None, c_score = None\<rparr>]
   = ''Answer the following question using ONLY the context provided below. If the answer cannot be found in the context, clearly state that the information is not available in the provided document.\<newline>\<newline>Context:\<newline>[Chunk 1 | Page 12 | File: a.pdf]\<newline>alpha\<newline>\<newline>[Chunk 2 | Page ? | File: ?]\<newline>beta\<newline>\<newline>Question: Why?\<newline>\<newline>Answer:''"
  by (simp add: build_prompt_format upt_rec str_int_def str_nat.simps digit_char_def)

section \<open>The retriever\<close>

lemma format_results_eq:
  "format_results results chunks =
     chunks @ map (\<lambda>item.
        \<lparr>c_text = Some (get_default (meta_text (get_default (item_meta item) empty_meta)) ''''),
         c_page = Some (get_default (meta_page (get_default (item_meta item) empty_meta)) 0),
         c_filename = Some (get_default (meta_filename (get_default (item_meta item) empty_meta)) ''''),
         c_score = Some (get_default (item_similarity item) 0)\<rparr>) results"
  by (induction results arbitrary: chunks) (simp_all add: Let_def)

text \<open>
  C9: whenever the question is embedded, the index is obtained and the backend answers
  the query with a list of items, \<open>retrieve\<close> returns normally one result per item,
  in the same order, with the empty string for a missing text or file name, 0 for a
  missing page and 0.0 for a missing similarity; an item without \<open>meta\<close> counts as one
  with an empty \<open>meta\<close>.  No missing field raises.
\<close>

theorem retrieve_defaults:
  assumes "st_encode_one w question = Inr v"
    and "get_index w INDEX_NAME = None"
    and "index_query w v top_k = Inr results"
  shows "fst (retrieve w question top_k s) =
           Inr (map (\<lambda>item.
                  \<lparr>c_text = Some (case item_meta item of None \<Rightarrow> ''''
                                  | Some m \<Rightarrow> (case meta_text m of None \<Rightarrow> '''' | Some t \<Rightarrow> t)),
                   c_page = Some (case item_meta item of None \<Rightarrow> 0
                                  | Some m \<Rightarrow> (case meta_page m of None \<Rightarrow> 0 | Some p \<Rightarrow> p)),
                   c_filename = Some (case item_meta item of None \<Rightarrow> ''''
                                  | Some m \<Rightarrow> (case meta_filename m of None \<Rightarrow> '''' | Some f \<Rightarrow> f)),
                   c_score = Some (case item_similarity item of None \<Rightarrow> 0 | Some x \<Rightarrow> x)\<rparr>)
                results)"
proof -
  have "format_results results [] =
          map (\<lambda>item.
                  \<lparr>c_text = Some (case item_meta item of None \<Rightarrow> ''''
                                  | Some m \<Rightarrow> (case meta_text m of None \<Rightarrow> '''' | Some t \<Rightarrow> t)),
                   c_page = Some (case item_meta item of None \<Rightarrow> 0
                                  | Some m \<Rightarrow> (case meta_page m of None \<Rightarrow> 0 | Some p \<Rightarrow> p)),
                   c_filename = Some (case item_meta item of None \<Rightarrow> ''''
                                  | Some m \<Rightarrow> (case meta_filename m of None \<Rightarrow> '''' | Some f \<Rightarrow> f)),
                   c_score = Some (case item_similarity item of None \<Rightarrow> 0 | Some x \<Rightarrow> x)\<rparr>)
                results"
    by (simp add: format_results_eq get_default_def empty_meta_def split: option.splits)
  with assms show ?thesis
    by (simp add: retrieve_def Let_def split: prod.splits)
qed

theorem retrieve_defaults_witness:
  "st_encode_one
     (fake_world []
        [\<lparr>item_meta = Some \<lparr>meta_text = Some ''alpha'', meta_page = Some 3,
                             meta_filename = Some ''a.pdf''\<rparr>,
          item_similarity = Some 1\<rparr>,
         \<lparr>item_meta = Some \<lparr>meta_text = None, meta_page = None, meta_filename = None\<rparr>,
          item_similarity = Some 0\<rparr>,
         \<lparr>item_meta = None, item_similarity = None\<rparr>]
        None []) ''Why?'' = Inr []
   \<and> fst (retrieve
       (fake_world []
        [\<lparr>item_meta = Some \<lparr>meta_text = Some ''alpha'', meta_page = Some 3,
                             meta_filename = Some ''a.pdf''\<rparr>,
          item_similarity = Some 1\<rparr>,
         \<lparr>item_meta = Some \<lparr>meta_text = None, meta_page = None, meta_filename = None\<rparr>,
          item_similarity = Some 0\<rparr>,
         \<lparr>item_meta = None, item_similarity = None\<rparr>]
        None []) ''Why?'' 5 initial_state) =
       Inr [\<lparr>c_text = Some ''alpha'', c_page = Some 3, c_filename = Some ''a.pdf'',
             c_score = Some 1\<rparr>,
            \<lparr>c_text = Some '''', c_page = Some 0, c_filename = Some '''', c_score = Some 0\<rparr>,
            \<lparr>c_text = Some '''', c_page = Some 0, c_filename = Some '''', c_score = Some 0\<rparr>]"
  using retrieve_defaults
    [of "fake_world []
        [\<lparr>item_meta = Some \<lparr>meta_text = Some ''alpha'', meta_page = Some 3,
                             meta_filename = Some ''a.pdf''\<rparr>,
          item_similarity = Some 1\<rparr>,
         \<lparr>item_meta = Some \<lparr>meta_text = None, meta_page = None, meta_filename = None\<rparr>,
          item_similarity = Some 0\<rparr>,
         \<lparr>item_meta = None, item_similarity = None\<rparr>]
        None []" "''Why?''" "[]" 5 _ initial_state]
  by (simp add: fake_world_def)

section \<open>The answer generator\<close>

lemma llm_calls_simps [simp]:
  "llm_calls [] = 0"
  "llm_calls (e # tr) = (if is_generate e then Suc (llm_calls tr) else llm_calls tr)"
  "llm_calls (a @ b) = llm_calls a + llm_calls b"
  by (simp_all add: llm_calls_def)

text \<open>The three rounds of the loop, written out.\<close>

lemma generate_loop_unrolled:
  "generate_loop w c p 0 s =
     (let k = llm_calls (trace s); G = GenerateContent c p
      in case generate_content w k p of
           Text t \<Rightarrow> (Inr (Some t), s\<lparr>trace := trace s @ [G]\<rparr>)
         | Raises m0 \<Rightarrow>
             if \<not> rate_limited m0 then (Inl (Raised m0), s\<lparr>trace := trace s @ [G]\<rparr>)
             else (case generate_content w (k + 1) p of
                     Text t \<Rightarrow> (Inr (Some t), s\<lparr>trace := trace s @ [G, Sleep 20, G]\<rparr>)
                   | Raises m1 \<Rightarrow>
                       if \<not> rate_limited m1
                       then (Inl (Raised m1), s\<lparr>trace := trace s @ [G, Sleep 20, G]\<rparr>)
                       else (case generate_content w (k + 2) p of
                               Text t \<Rightarrow>
                                 (Inr (Some t),
                                  s\<lparr>trace := trace s @ [G, Sleep 20, G, Sleep 40, G]\<rparr>)
                             | Raises m2 \<Rightarrow>
                                 (Inl (Raised m2),
                                  s\<lparr>trace := trace s @ [G, Sleep 20, G, Sleep 40, G]\<rparr>))))"
proof -
  define k where "k = llm_calls (trace s)"
  define G where "G = GenerateContent c p"
  define s1 where "s1 = s\<lparr>trace := trace s @ [G, Sleep 20]\<rparr>"
  define s2 where "s2 = s\<lparr>trace := trace s @ [G, Sleep 20, G, Sleep 40]\<rparr>"
  have k1: "llm_calls (trace s1) = k + 1" and k2: "llm_calls (trace s2) = k + 2"
    by (simp_all add: s1_def s2_def k_def G_def)
  have third: "generate_loop w c p 2 s2 =
      (case generate_content w (k + 2) p of
         Text t \<Rightarrow> (Inr (Some t), s\<lparr>trace := trace s @ [G, Sleep 20, G, Sleep 40, G]\<rparr>)
       | Raises m2 \<Rightarrow> (Inl (Raised m2), s\<lparr>trace := trace s @ [G, Sleep 20, G, Sleep 40, G]\<rparr>))"
    by (subst generate_loop.simps)
       (simp add: max_retries_def record_call_def k_def G_def s2_def Let_def split: llm_response.splits)
  have second: "generate_loop w c p 1 s1 =
      (case generate_content w (k + 1) p of
         Text t \<Rightarrow> (Inr (Some t), s\<lparr>trace := trace s @ [G, Sleep 20, G]\<rparr>)
       | Raises m1 \<Rightarrow>
           if \<not> rate_limited m1 then (Inl (Raised m1), s\<lparr>trace := trace s @ [G, Sleep 20, G]\<rparr>)
           else generate_loop w c p 2 s2)"
    by (subst generate_loop.simps)
       (simp add: max_retries_def record_call_def k_def G_def s1_def s2_def Let_def split: llm_response.splits)
  have first: "generate_loop w c p 0 s =
      (case generate_content w k p of
         Text t \<Rightarrow> (Inr (Some t), s\<lparr>trace := trace s @ [G]\<rparr>)
       | Raises m0 \<Rightarrow>
           if \<not> rate_limited m0 then (Inl (Raised m0), s\<lparr>trace := trace s @ [G]\<rparr>)
           else generate_loop w c p 1 s1)"
    by (subst generate_loop.simps)
       (simp add: max_retries_def record_call_def k_def G_def s1_def Let_def split: llm_response.splits)
  show ?thesis
    unfolding Let_def k_def [symmetric] G_def [symmetric] first second third ..
qed

lemma sublist_eval:
  "sublist [] ys = True"
  "sublist (x # xs) [] = False"
  "sublist (x # xs) (y # ys) = (prefix (x # xs) (y # ys) \<or> sublist (x # xs) ys)"
  by (simp_all add: sublist_code)

lemma get_client_fake:
  "get_client (fake_world doc items (Some ''k3y'') script) initial_state =
     (Inr 0, \<lparr>ingestor_model = None, retriever_model = None, generator_client = Some 0,
              trace = [NewClient ''k3y'']\<rparr>)"
  by (simp add: get_client_def fake_world_def initial_state_def record_call_def PLACEHOLDER_def)

text \<open>
  C4: once the client is there, \<open>generate_answer\<close> calls the backend at most three
  times, and goes on to the next attempt only after a rate-limit signal (an exception
  whose text contains \<open>429\<close>), sleeping 20 seconds after the first attempt and 40 after
  the second.  Rate-limited twice and then answered, it returns the answer of the third
  attempt, having slept 20 then 40.  Rate-limited on the first two attempts, it raises
  whatever the third attempt raises, after exactly three calls and with no third
  sleep.  An exception that is not a rate-limit signal is raised at once, at the first
  or the second attempt, with no further call; no branch returns an answer the backend
  did not give.
\<close>

theorem generate_answer_retry_policy:
  assumes "get_client w s = (Inr c, s1)"
  shows "let p = build_prompt question chunks; k = llm_calls (trace s1); G = GenerateContent c p
         in (\<forall>m0 m1 t.
               generate_content w k p = Raises m0 \<and> rate_limited m0
               \<and> generate_content w (k + 1) p = Raises m1 \<and> rate_limited m1
               \<and> generate_content w (k + 2) p = Text t
               \<longrightarrow> generate_answer w question chunks s =
                     (Inr (Some t), s1\<lparr>trace := trace s1 @ [G, Sleep 20, G, Sleep 40, G]\<rparr>))
          \<and> (\<forall>m0 m1 m2.
               generate_content w k p = Raises m0 \<and> rate_limited m0
               \<and> generate_content w (k + 1) p = Raises m1 \<and> rate_limited m1
               \<and> generate_content w (k + 2) p = Raises m2
               \<longrightarrow> generate_answer w question chunks s =
                     (Inl (Raised m2), s1\<lparr>trace := trace s1 @ [G, Sleep 20, G, Sleep 40, G]\<rparr>))
          \<and> (\<forall>m0.
               generate_content w k p = Raises m0 \<and> \<not> rate_limited m0
               \<longrightarrow> generate_answer w question chunks s =
                     (Inl (Raised m0), s1\<lparr>trace := trace s1 @ [G]\<rparr>))
          \<and> (\<forall>m0 m1.
               generate_content w k p = Raises m0 \<and> rate_limited m0
               \<and> generate_content w (k + 1) p = Raises m1 \<and> \<not> rate_limited m1
               \<longrightarrow> generate_answer w question chunks s =
                     (Inl (Raised m1), s1\<lparr>trace := trace s1 @ [G, Sleep 20, G]\<rparr>))
          \<and> (\<forall>t.
               generate_content w k p = Text t
               \<longrightarrow> generate_answer w question chunks s =
                     (Inr (Some t), s1\<lparr>trace := trace s1 @ [G]\<rparr>))
          \<and> (\<forall>m0 t.
               generate_content w k p = Raises m0 \<and> rate_limited m0
               \<and> generate_content w (k + 1) p = Text t
               \<longrightarrow> generate_answer w question chunks s =
                     (Inr (Some t), s1\<lparr>trace := trace s1 @ [G, Sleep 20, G]\<rparr>))"
  using assms
  by (simp add: generate_answer_def generate_loop_unrolled Let_def)

theorem generate_answer_retry_policy_witness:
  "get_client (fake_world [] [] (Some ''k3y'') [Raises ''429 RESOURCE_EXHAUSTED'', Raises ''HTTP 429'', Text ''fine''])
      initial_state =
     (Inr 0, \<lparr>ingestor_model = None, retriever_model = None, generator_client = Some 0,
              trace = [NewClient ''k3y'']\<rparr>)
   \<and> generate_answer
        (fake_world [] [] (Some ''k3y'') [Raises ''429 RESOURCE_EXHAUSTED'', Raises ''HTTP 429'', Text ''fine''])
        ''Why?'' [] initial_state =
       (Inr (Some ''fine''),
        \<lparr>ingestor_model = None, retriever_model = None, generator_client = Some 0,
         trace = [NewClient ''k3y'',
                  GenerateContent 0 (build_prompt ''Why?'' []), Sleep 20,
                  GenerateContent 0 (build_prompt ''Why?'' []), Sleep 40,
                  GenerateContent 0 (build_prompt ''Why?'' [])]\<rparr>)
   \<and> generate_answer
        (fake_world [] [] (Some ''k3y'') [Raises ''429'', Raises ''429'', Raises ''429'', Text ''late''])
        ''Why?'' [] initial_state =
       (Inl (Raised ''429''),
        \<lparr>ingestor_model = None, retriever_model = None, generator_client = Some 0,
         trace = [NewClient ''k3y'',
                  GenerateContent 0 (build_prompt ''Why?'' []), Sleep 20,
                  GenerateContent 0 (build_prompt ''Why?'' []), Sleep 40,
                  GenerateContent 0 (build_prompt ''Why?'' [])]\<rparr>)
   \<and> generate_answer
        (fake_world [] [] (Some ''k3y'') [Raises ''500 INTERNAL'', Text ''late''])
        ''Why?'' [] initial_state =
       (Inl (Raised ''500 INTERNAL''),
        \<lparr>ingestor_model = None, retriever_model = None, generator_client = Some 0,
         trace = [NewClient ''k3y'', GenerateContent 0 (build_prompt ''Why?'' [])]\<rparr>)"
proof (intro conjI)
  show "get_client (fake_world [] [] (Some ''k3y'') [Raises ''429 RESOURCE_EXHAUSTED'', Raises ''HTTP 429'', Text ''fine''])
      initial_state =
     (Inr 0, \<lparr>ingestor_model = None, retriever_model = None, generator_client = Some 0,
              trace = [NewClient ''k3y'']\<rparr>)"
    by (rule get_client_fake)
  show "generate_answer
        (fake_world [] [] (Some ''k3y'') [Raises ''429 RESOURCE_EXHAUSTED'', Raises ''HTTP 429'', Text ''fine''])
        ''Why?'' [] initial_state =
       (Inr (Some ''fine''),
        \<lparr>ingestor_model = None, retriever_model = None, generator_client = Some 0,
         trace = [NewClient ''k3y'',
                  GenerateContent 0 (build_prompt ''Why?'' []), Sleep 20,
                  GenerateContent 0 (build_prompt ''Why?'' []), Sleep 40,
                  GenerateContent 0 (build_prompt ''Why?'' [])]\<rparr>)"
    using generate_answer_retry_policy [OF get_client_fake [of "[]" "[]" "[Raises ''429 RESOURCE_EXHAUSTED'', Raises ''HTTP 429'', Text ''fine'']"],
            where question = "''Why?''" and chunks = "[]"]
    by (simp add: Let_def fake_world_def rate_limited_def sublist_eval)
  show "generate_answer
        (fake_world [] [] (Some ''k3y'') [Raises ''429'', Raises ''429'', Raises ''429'', Text ''late''])
        ''Why?'' [] initial_state =
       (Inl (Raised ''429''),
        \<lparr>ingestor_model = None, retriever_model = None, generator_client = Some 0,
         trace = [NewClient ''k3y'',
                  GenerateContent 0 (build_prompt ''Why?'' []), Sleep 20,
                  GenerateContent 0 (build_prompt ''Why?'' []), Sleep 40,
                  GenerateContent 0 (build_prompt ''Why?'' [])]\<rparr>)"
    using generate_answer_retry_policy [OF get_client_fake [of "[]" "[]" "[Raises ''429'', Raises ''429'', Raises ''429'', Text ''late'']"],
            where question = "''Why?''" and chunks = "[]"]
    by (simp add: Let_def fake_world_def rate_limited_def sublist_eval)
  show "generate_answer
        (fake_world [] [] (Some ''k3y'') [Raises ''500 INTERNAL'', Text ''late''])
        ''Why?'' [] initial_state =
       (Inl (Raised ''500 INTERNAL''),
        \<lparr>ingestor_model = None, retriever_model = None, generator_client = Some 0,
         trace = [NewClient ''k3y'', GenerateContent 0 (build_prompt ''Why?'' [])]\<rparr>)"
    using generate_answer_retry_policy [OF get_client_fake [of "[]" "[]" "[Raises ''500 INTERNAL'', Text ''late'']"],
            where question = "''Why?''" and chunks = "[]"]
    by (simp add: Let_def fake_world_def rate_limited_def sublist_eval)
qed

section \<open>The client handle\<close>

lemma client_events_simps [simp]:
  "client_events [] = []"
  "client_events (a @ b) = client_events a @ client_events b"
  "client_events (NewClient key # tr) = NewClient key # client_events tr"
  "client_events (GenerateContent c p # tr) = GenerateContent c p # client_events tr"
  "client_events (Sleep n # tr) = client_events tr"
  "client_events (LoadModel name # tr) = client_events tr"
  "client_events (Encode m texts # tr) = client_events tr"
  "client_events (EncodeQuery m q # tr) = client_events tr"
  "client_events (CreateIndex # tr) = client_events tr"
  "client_events (GetIndex name # tr) = client_events tr"
  "client_events (Upsert batch # tr) = client_events tr"
  "client_events (Query v k # tr) = client_events tr"
  by (simp_all add: client_events_def)

lemma upsert_batches_client:
  "upsert_batches w vectors start s = (r, s') \<Longrightarrow>
   generator_client s' = generator_client s \<and> client_events (trace s') = client_events (trace s)"
proof (induction w vectors start s rule: upsert_batches.induct)
  case (1 w vectors start s)
  show ?case
  proof (cases "start < int (length vectors)")
    case False
    with "1.prems" show ?thesis
      by (simp add: upsert_batches.simps)
  next
    case True
    define batch where "batch = py_slice vectors start (start + BATCH_SIZE)"
    show ?thesis
    proof (cases "index_upsert w batch")
      case (Some e)
      with True "1.prems" show ?thesis
        by (simp add: upsert_batches.simps [of w vectors start s] batch_def Let_def record_call_def)
           auto
    next
      case None
      with True "1.prems"
      have run: "upsert_batches w vectors (start + BATCH_SIZE) (record_call (Upsert batch) s) = (r, s')"
        by (simp add: upsert_batches.simps [of w vectors start s] batch_def Let_def)
      from "1.IH" True None run
      show ?thesis
        by (simp add: record_call_def batch_def)
    qed
  qed
qed

lemma ingest_pdf_client:
  assumes "ingest_pdf w pdf_path filename s = Some (r, s')"
  shows "generator_client s' = generator_client s
         \<and> client_events (trace s') = client_events (trace s)"
  using assms
  by (auto simp: ingest_pdf_def ingestor_get_model_def ensure_index_def record_call_def Let_def
           split: sum.splits option.splits if_splits prod.splits
           dest!: upsert_batches_client)

lemma retrieve_client:
  assumes "retrieve w question top_k s = (r, s')"
  shows "generator_client s' = generator_client s
         \<and> client_events (trace s') = client_events (trace s)"
  using assms
  by (auto simp: retrieve_def retriever_get_model_def record_call_def Let_def
           split: sum.splits option.splits if_splits prod.splits)

lemma generate_loop_client:
  "generate_loop w c p attempt s = (r, s') \<Longrightarrow>
   generator_client s' = generator_client s
   \<and> (\<exists>n. client_events (trace s') = client_events (trace s) @ replicate n (GenerateContent c p))"
proof (induction w c p attempt s rule: generate_loop.induct)
  case (1 w c p attempt s)
  define s1 where "s1 = record_call (GenerateContent c p) s"
  have s1: "generator_client s1 = generator_client s"
    "client_events (trace s1) = client_events (trace s) @ [GenerateContent c p]"
    by (simp_all add: s1_def record_call_def)
  show ?case
  proof (cases "attempt < max_retries")
    case False
    with "1.prems" have "s' = s"
      by (simp add: generate_loop.simps [of w c p attempt s])
    then show ?thesis by simp
  next
    case True
    show ?thesis
    proof (cases "generate_content w (llm_calls (trace s)) p")
      case (Text t)
      with True "1.prems" have "s' = s1"
        by (simp add: generate_loop.simps [of w c p attempt s] s1_def Let_def)
      with s1 have "generator_client s' = generator_client s"
        and "client_events (trace s') = client_events (trace s) @ replicate 1 (GenerateContent c p)"
        by simp_all
      then show ?thesis by blast
    next
      case (Raises msg)
      show ?thesis
      proof (cases "rate_limited msg \<and> attempt < max_retries - 1")
        case False
        with True Raises "1.prems" have "s' = s1"
          by (simp add: generate_loop.simps [of w c p attempt s] s1_def Let_def)
        with s1 have "generator_client s' = generator_client s"
          and "client_events (trace s') = client_events (trace s) @ replicate 1 (GenerateContent c p)"
          by simp_all
        then show ?thesis by blast
      next
        case retry: True
        define s2 where "s2 = record_call (Sleep (20 * (attempt + 1))) s1"
        have s2: "generator_client s2 = generator_client s"
          "client_events (trace s2) = client_events (trace s) @ [GenerateContent c p]"
          using s1 by (simp_all add: s2_def record_call_def)
        from True Raises retry "1.prems"
        have run: "generate_loop w c p (attempt + 1) s2 = (r, s')"
          by (simp add: generate_loop.simps [of w c p attempt s] s1_def s2_def Let_def)
        from "1.IH" [OF True s1_def Raises retry refl, folded s2_def, OF run]
        obtain n where "generator_client s' = generator_client s2"
          and "client_events (trace s') = client_events (trace s2) @ replicate n (GenerateContent c p)"
          by blast
        with s2 have "generator_client s' = generator_client s"
          and "client_events (trace s') = client_events (trace s) @ replicate (Suc n) (GenerateContent c p)"
          by simp_all
        then show ?thesis by blast
      qed
    qed
  qed
qed

lemma generate_loop_client_ok:
  assumes "generate_loop w c p attempt s1 = (r, s')"
    and "generator_client s1 = Some c"
    and "client_ok w s1"
  shows "generator_client s' = Some c \<and> client_ok w s'"
proof -
  from generate_loop_client [OF assms(1)] obtain n
    where g: "generator_client s' = generator_client s1"
      and ev: "client_events (trace s') = client_events (trace s1) @ replicate n (GenerateContent c p)"
    by blast
  have "list_all (made_with c) (replicate n (GenerateContent c p))"
    by (induction n) simp_all
  with assms(2,3) g ev show ?thesis
    by (auto simp: client_ok_def split: list.splits)
qed

lemma generate_answer_client_ok:
  assumes "client_ok w s" and "generate_answer w question chunks s = (r, s')"
  shows "client_ok w s'
       \<and> (credential_missing w \<longrightarrow> r = Inl (ValueError KEY_MISSING) \<and> s' = s)
       \<and> (\<not> credential_missing w \<longrightarrow>
            (\<exists>c. generator_client s' = Some c
                \<and> (generator_client s = None \<or> generator_client s = Some c)))"
proof (cases "generator_client s")
  case (Some c)
  with assms(1) have ok: "\<not> credential_missing w"
    by (simp add: client_ok_def)
  from Some assms(2) have "generate_loop w c (build_prompt question chunks) 0 s = (r, s')"
    by (simp add: generate_answer_def get_client_def)
  from generate_loop_client_ok [OF this Some assms(1)] ok Some show ?thesis
    by simp
next
  case None
  show ?thesis
  proof (cases "credential_missing w")
    case True
    with None assms(2) have "r = Inl (ValueError KEY_MISSING) \<and> s' = s"
      by (auto simp: generate_answer_def get_client_def credential_missing_def Let_def)
    with True assms(1) show ?thesis by simp
  next
    case False
    define c where "c = length (trace s)"
    define s1 where "s1 = (record_call (NewClient (the (getenv w ''GEMINI_API_KEY''))) s)
                            \<lparr>generator_client := Some c\<rparr>"
    from None False have gc: "get_client w s = (Inr c, s1)"
      by (simp add: get_client_def credential_missing_def Let_def c_def s1_def)
    from None assms(1) have "client_events (trace s) = []"
      by (simp add: client_ok_def)
    then have ok1: "client_ok w s1" and c1: "generator_client s1 = Some c"
      using False by (simp_all add: client_ok_def s1_def record_call_def)
    from gc assms(2) have "generate_loop w c (build_prompt question chunks) 0 s1 = (r, s')"
      by (simp add: generate_answer_def)
    from generate_loop_client_ok [OF this c1 ok1] False None show ?thesis
      by simp
  qed
qed

lemma frame_client_ok:
  assumes "client_ok w s" and "generator_client s' = generator_client s"
    and "client_events (trace s') = client_events (trace s)"
  shows "client_ok w s'"
  using assms(1) unfolding client_ok_def assms(2) assms(3) .

text \<open>Every state of a process lifetime has its client global in agreement with its
  history.\<close>

lemma reachable_client_ok:
  assumes "reachable w s"
  shows "client_ok w s"
  using assms
proof (induction rule: reachable.induct)
  case start
  show ?case by (simp add: initial_state_def client_ok_def)
next
  case (after_ingest s pdf_path filename r s')
  from ingest_pdf_client [OF after_ingest.hyps(2)] after_ingest.IH show ?case
    by (intro frame_client_ok [of w s s']) simp_all
next
  case (after_retrieve s question top_k r s')
  from retrieve_client [OF after_retrieve.hyps(2)] after_retrieve.IH show ?case
    by (intro frame_client_ok [of w s s']) simp_all
next
  case (after_generate s question chunks r s')
  from generate_answer_client_ok [OF after_generate.IH after_generate.hyps(2)] show ?case
    by simp
next
  case (after_ask s question r s')
  obtain r1 s1 where ret: "retrieve w question TOP_K s = (r1, s1)"
    by (cases "retrieve w question TOP_K s")
  from retrieve_client [OF ret] after_ask.IH have ok1: "client_ok w s1"
    by (intro frame_client_ok [of w s s1]) simp_all
  show ?case
  proof (cases r1)
    case (Inl e)
    with ret after_ask.hyps(2) have "s' = s1" by (simp add: ask_def)
    with ok1 show ?thesis by simp
  next
    case (Inr srcs)
    obtain r2 s2 where gen: "generate_answer w question srcs s1 = (r2, s2)"
      by (cases "generate_answer w question srcs s1")
    with Inr ret after_ask.hyps(2) have "s' = s2"
      by (auto simp: ask_def split: sum.splits)
    with generate_answer_client_ok [OF ok1 gen] show ?thesis by simp
  qed
qed

text \<open>
  C8: in every state of a process lifetime, if the credential \<open>GEMINI_API_KEY\<close> is
  missing, empty or the placeholder, \<open>generate_answer\<close> raises the configuration error
  and leaves the state as it was: no client is created, no call reaches the backend,
  and the result does not depend on the question or the chunks (no prompt is used).
  Otherwise the call ends with the client global set; the client it holds is the one
  the global held before, if it held one; and in the whole history of the process
  exactly one client was created, with the credential and before any call, and every
  call to the backend went through it.
\<close>

theorem credential_checked_before_use:
  assumes "reachable w s"
  shows "(credential_missing w \<longrightarrow>
            generate_answer w question chunks s = (Inl (ValueError KEY_MISSING), s))
       \<and> (\<not> credential_missing w \<longrightarrow>
            (\<exists>r s' c es. generate_answer w question chunks s = (r, s')
               \<and> generator_client s' = Some c
               \<and> (generator_client s = None \<or> generator_client s = Some c)
               \<and> client_events (trace s') = NewClient (the (getenv w ''GEMINI_API_KEY'')) # es
               \<and> list_all (made_with c) es))"
proof -
  obtain r s' where run: "generate_answer w question chunks s = (r, s')"
    by (cases "generate_answer w question chunks s")
  from generate_answer_client_ok [OF reachable_client_ok [OF assms] run]
  have ok: "client_ok w s'"
    and miss: "credential_missing w \<longrightarrow> r = Inl (ValueError KEY_MISSING) \<and> s' = s"
    and pres: "\<not> credential_missing w \<longrightarrow>
            (\<exists>c. generator_client s' = Some c
                \<and> (generator_client s = None \<or> generator_client s = Some c))"
    by simp_all
  show ?thesis
  proof (intro conjI impI)
    assume "credential_missing w"
    with miss run show "generate_answer w question chunks s = (Inl (ValueError KEY_MISSING), s)"
      by simp
  next
    assume "\<not> credential_missing w"
    with pres obtain c where c: "generator_client s' = Some c"
      and c': "generator_client s = None \<or> generator_client s = Some c"
      by blast
    from ok c obtain es where "client_events (trace s') = NewClient (the (getenv w ''GEMINI_API_KEY'')) # es"
      and "list_all (made_with c) es"
      by (auto simp: client_ok_def split: list.splits)
    with run c c' show "\<exists>r s' c es. generate_answer w question chunks s = (r, s')
               \<and> generator_client s' = Some c
               \<and> (generator_client s = None \<or> generator_client s = Some c)
               \<and> client_events (trace s') = NewClient (the (getenv w ''GEMINI_API_KEY'')) # es
               \<and> list_all (made_with c) es"
      by blast
  qed
qed

theorem credential_checked_before_use_witness:
  "reachable (fake_world [] [] (Some ''your-gemini-api-key-here'') [Text ''never'']) initial_state
   \<and> credential_missing (fake_world [] [] (Some ''your-gemini-api-key-here'') [Text ''never''])
   \<and> generate_answer (fake_world [] [] (Some ''your-gemini-api-key-here'') [Text ''never''])
        ''Why?'' [] initial_state = (Inl (ValueError KEY_MISSING), initial_state)
   \<and> reachable (fake_world [] [] None [Text ''never'']) initial_state
   \<and> credential_missing (fake_world [] [] None [Text ''never''])
   \<and> generate_answer (fake_world [] [] None [Text ''never''])
        ''Why?'' [] initial_state = (Inl (ValueError KEY_MISSING), initial_state)"
proof -
  have r1: "reachable (fake_world [] [] (Some ''your-gemini-api-key-here'') [Text ''never'']) initial_state"
    by (rule reachable.start)
  have m1: "credential_missing (fake_world [] [] (Some ''your-gemini-api-key-here'') [Text ''never''])"
    by (simp add: credential_missing_def fake_world_def PLACEHOLDER_def)
  have r2: "reachable (fake_world [] [] None [Text ''never'']) initial_state"
    by (rule reachable.start)
  have m2: "credential_missing (fake_world [] [] None [Text ''never''])"
    by (simp add: credential_missing_def fake_world_def)
  from credential_checked_before_use [OF r1, of "''Why?''" "[]"] m1
  have g1: "generate_answer (fake_world [] [] (Some ''your-gemini-api-key-here'') [Text ''never''])
        ''Why?'' [] initial_state = (Inl (ValueError KEY_MISSING), initial_state)"
    by blast
  from credential_checked_before_use [OF r2, of "''Why?''" "[]"] m2
  have g2: "generate_answer (fake_world [] [] None [Text ''never''])
        ''Why?'' [] initial_state = (Inl (ValueError KEY_MISSING), initial_state)"
    by blast
  from r1 m1 g1 r2 m2 g2 show ?thesis by blast
qed

section \<open>A question against an empty index\<close>

lemma generate_loop_outcome:
  "\<exists>r s' rest. generate_loop w c p 0 s = (r, s')
     \<and> trace s' = trace s @ GenerateContent c p # rest
     \<and> (\<forall>e. r = Inl e \<longrightarrow> (\<exists>m k. e = Raised m \<and> generate_content w k p = Raises m))"
proof -
  define k where "k = llm_calls (trace s)"
  show ?thesis
  proof (cases "generate_content w k p")
    case (Text t)
    then show ?thesis
      by (simp add: generate_loop_unrolled Let_def k_def)
  next
    case r0: (Raises m0)
    show ?thesis
    proof (cases "rate_limited m0")
      case False
      with r0 show ?thesis
        by (auto simp: generate_loop_unrolled Let_def k_def)
    next
      case rl0: True
      show ?thesis
      proof (cases "generate_content w (k + 1) p")
        case (Text t)
        with r0 rl0 show ?thesis
          by (simp add: generate_loop_unrolled Let_def k_def)
      next
        case r1: (Raises m1)
        show ?thesis
        proof (cases "rate_limited m1")
          case False
          with r0 rl0 r1 show ?thesis
            by (auto simp: generate_loop_unrolled Let_def k_def)
        next
          case rl1: True
          show ?thesis
          proof (cases "generate_content w (k + 2) p")
            case (Text t)
            with r0 rl0 r1 rl1 show ?thesis
              by (simp add: generate_loop_unrolled Let_def k_def)
          next
            case (Raises m2)
            with r0 rl0 r1 rl1 show ?thesis
              by (auto simp: generate_loop_unrolled Let_def k_def)
          qed
        qed
      qed
    qed
  qed
qed

lemma retrieve_empty:
  assumes "st_encode_one w question = Inr v"
    and "get_index w INDEX_NAME = None"
    and "index_query w v top_k = Inr []"
  shows "\<exists>s1 evs. retrieve w question top_k s = (Inr [], s1) \<and> trace s1 = trace s @ evs"
  using assms
  by (cases "retriever_model s")
     (simp_all add: retrieve_def retriever_get_model_def record_call_def Let_def)

lemma get_client_present:
  assumes "\<not> credential_missing w"
  shows "\<exists>c s1 evs. get_client w s = (Inr c, s1) \<and> trace s1 = trace s @ evs"
  using assms
  by (cases "generator_client s")
     (auto simp: get_client_def credential_missing_def Let_def record_call_def)

lemma generate_answer_outcome:
  assumes "\<not> credential_missing w"
  shows "\<exists>r s' c evs. generate_answer w question chunks s = (r, s')
     \<and> trace s' = trace s @ evs
     \<and> GenerateContent c (build_prompt question chunks) \<in> set evs
     \<and> (\<forall>e. r = Inl e \<longrightarrow>
           (\<exists>m k. e = Raised m \<and> generate_content w k (build_prompt question chunks) = Raises m))"
proof -
  from get_client_present [OF assms] obtain c s1 evs
    where gc: "get_client w s = (Inr c, s1)" and t1: "trace s1 = trace s @ evs"
    by blast
  from generate_loop_outcome [of w c "build_prompt question chunks" s1] obtain r s' rest
    where run: "generate_loop w c (build_prompt question chunks) 0 s1 = (r, s')"
      and t2: "trace s' = trace s1 @ GenerateContent c (build_prompt question chunks) # rest"
      and err: "\<forall>e. r = Inl e \<longrightarrow>
           (\<exists>m k. e = Raised m \<and> generate_content w k (build_prompt question chunks) = Raises m)"
    by blast
  from gc run have "generate_answer w question chunks s = (r, s')"
    by (simp add: generate_answer_def)
  moreover from t1 t2
  have "trace s' = trace s @ (evs @ GenerateContent c (build_prompt question chunks) # rest)"
    by simp
  moreover have "GenerateContent c (build_prompt question chunks)
                 \<in> set (evs @ GenerateContent c (build_prompt question chunks) # rest)"
    by simp
  ultimately show ?thesis using err by blast
qed

text \<open>
  C10: for every question the prompt built from no chunks is well formed: the grounding
  instruction, \<open>Context:\<close> with an empty context block, then the question.  When the
  retrieval succeeds with zero results and the credential is present, neither
  \<open>generate_answer\<close> nor \<open>ask\<close> fails before the language-model call: the call is made
  with that prompt, an exception can only be one the language-model backend raised, and
  a normal return of \<open>ask\<close> carries the empty source list.
\<close>

theorem empty_retrieval_reaches_model:
  assumes "st_encode_one w question = Inr v"
    and "get_index w INDEX_NAME = None"
    and "index_query w v TOP_K = Inr []"
    and "\<not> credential_missing w"
  shows "build_prompt question [] =
           ''Answer the following question using ONLY the context provided below. If the answer cannot be found in the context, clearly state that the information is not available in the provided document.''
           @ ''\<newline>\<newline>Context:\<newline>'' @ [] @ ''\<newline>\<newline>Question: '' @ question
           @ ''\<newline>\<newline>Answer:''
       \<and> (\<exists>r s' c evs. generate_answer w question [] s = (r, s')
             \<and> trace s' = trace s @ evs
             \<and> GenerateContent c (build_prompt question []) \<in> set evs
             \<and> (\<forall>e. r = Inl e \<longrightarrow>
                   (\<exists>m k. e = Raised m \<and> generate_content w k (build_prompt question []) = Raises m)))
       \<and> (\<exists>r s' c evs. ask w question s = (r, s')
             \<and> trace s' = trace s @ evs
             \<and> GenerateContent c (build_prompt question []) \<in> set evs
             \<and> (\<forall>e. r = Inl e \<longrightarrow>
                   (\<exists>m k. e = Raised m \<and> generate_content w k (build_prompt question []) = Raises m))
             \<and> (\<forall>a. r = Inr a \<longrightarrow> sources a = []))"
proof (intro conjI)
  show "build_prompt question [] =
           ''Answer the following question using ONLY the context provided below. If the answer cannot be found in the context, clearly state that the information is not available in the provided document.''
           @ ''\<newline>\<newline>Context:\<newline>'' @ [] @ ''\<newline>\<newline>Question: '' @ question
           @ ''\<newline>\<newline>Answer:''"
    by (simp add: build_prompt_def)
  show "\<exists>r s' c evs. generate_answer w question [] s = (r, s')
             \<and> trace s' = trace s @ evs
             \<and> GenerateContent c (build_prompt question []) \<in> set evs
             \<and> (\<forall>e. r = Inl e \<longrightarrow>
                   (\<exists>m k. e = Raised m \<and> generate_content w k (build_prompt question []) = Raises m))"
    by (rule generate_answer_outcome [OF assms(4)])
  from retrieve_empty [OF assms(1-3)] obtain s1 evs0
    where ret: "retrieve w question TOP_K s = (Inr [], s1)"
      and t0: "trace s1 = trace s @ evs0"
    by blast
  from generate_answer_outcome [OF assms(4), of question "[]" s1] obtain r s' c evs
    where gen: "generate_answer w question [] s1 = (r, s')"
      and t1: "trace s' = trace s1 @ evs"
      and ev: "GenerateContent c (build_prompt question []) \<in> set evs"
      and err: "\<forall>e. r = Inl e \<longrightarrow>
           (\<exists>m k. e = Raised m \<and> generate_content w k (build_prompt question []) = Raises m)"
    by blast
  define r' where "r' = (case r of Inl e \<Rightarrow> Inl e | Inr ans \<Rightarrow> Inr \<lparr>answer = ans, sources = []\<rparr>)"
  from ret gen have "ask w question s = (r', s')"
    by (simp add: ask_def r'_def split: sum.splits)
  moreover from t0 t1 have "trace s' = trace s @ (evs0 @ evs)" by simp
  moreover from ev have "GenerateContent c (build_prompt question []) \<in> set (evs0 @ evs)" by simp
  moreover from err have "\<forall>e. r' = Inl e \<longrightarrow>
           (\<exists>m k. e = Raised m \<and> generate_content w k (build_prompt question []) = Raises m)"
    by (auto simp: r'_def split: sum.splits)
  moreover have "\<forall>a. r' = Inr a \<longrightarrow> sources a = []"
    by (auto simp: r'_def split: sum.splits)
  ultimately show "\<exists>r s' c evs. ask w question s = (r, s')
             \<and> trace s' = trace s @ evs
             \<and> GenerateContent c (build_prompt question []) \<in> set evs
             \<and> (\<forall>e. r = Inl e \<longrightarrow>
                   (\<exists>m k. e = Raised m \<and> generate_content w k (build_prompt question []) = Raises m))
             \<and> (\<forall>a. r = Inr a \<longrightarrow> sources a = [])"
    by blast
qed

theorem empty_retrieval_reaches_model_witness:
  "st_encode_one (fake_world [] [] (Some ''k3y'') [Text ''Not in the document.'']) ''Why?'' = Inr []
   \<and> get_index (fake_world [] [] (Some ''k3y'') [Text ''Not in the document.'']) INDEX_NAME = None
   \<and> index_query (fake_world [] [] (Some ''k3y'') [Text ''Not in the document.'']) [] TOP_K = Inr []
   \<and> \<not> credential_missing (fake_world [] [] (Some ''k3y'') [Text ''Not in the document.''])
   \<and> (\<exists>r s' c evs.
         ask (fake_world [] [] (Some ''k3y'') [Text ''Not in the document.'']) ''Why?''
           initial_state = (r, s')
       \<and> trace s' = trace initial_state @ evs
       \<and> GenerateContent c (build_prompt ''Why?'' []) \<in> set evs)"
proof -
  let ?w = "fake_world [] [] (Some ''k3y'') [Text ''Not in the document.'']"
  have h1: "st_encode_one ?w ''Why?'' = Inr []"
    and h2: "get_index ?w INDEX_NAME = None"
    and h3: "index_query ?w [] TOP_K = Inr []"
    by (simp_all add: fake_world_def)
  have h4: "\<not> credential_missing ?w"
    by (simp add: credential_missing_def fake_world_def PLACEHOLDER_def)
  from empty_retrieval_reaches_model [OF h1 h2 h3 h4, of initial_state]
  have "\<exists>r s' c evs. ask ?w ''Why?'' initial_state = (r, s')
       \<and> trace s' = trace initial_state @ evs
       \<and> GenerateContent c (build_prompt ''Why?'' []) \<in> set evs"
    by (elim conjE exE) (intro exI conjI, assumption+)
  with h1 h2 h3 h4 show ?thesis by (intro conjI)
qed

lemma ask_empty_index_example:
  "ask (fake_world [] [] (Some ''k3y'') [Text ''Not in the document.'']) ''Why?'' initial_state =
     (Inr \<lparr>answer = Some ''Not in the document.'', sources = []\<rparr>,
      \<lparr>ingestor_model = None, retriever_model = Some 0, generator_client = Some 4,
       trace = [LoadModel MODEL_NAME, EncodeQuery 0 ''Why?'', GetIndex INDEX_NAME, Query [] TOP_K,
                NewClient ''k3y'', GenerateContent 4 (build_prompt ''Why?'' [])]\<rparr>)"
  by (simp add: ask_def retrieve_def retriever_get_model_def generate_answer_def get_client_def
        generate_loop_unrolled fake_world_def initial_state_def record_call_def Let_def
        PLACEHOLDER_def)

section \<open>Ingestion\<close>

lemma upsert_calls_append [simp]:
  "upsert_calls (a @ b) = upsert_calls a @ upsert_calls b"
  by (induction a rule: upsert_calls.induct) simp_all

lemma upsert_calls_map_Upsert [simp]:
  "upsert_calls (map Upsert bs) = bs"
  by (induction bs) simp_all










text \<open>Two runs on the stand-in collaborators: a document of two pages, one blank, and a
  document whose single page of 540000 characters gives 1200 chunks.\<close>

lemma ingest_pdf_example:
  "ingest_pdf (fake_world [''   '', ''Hi''] [] None []) ''/tmp/x.pdf'' ''x.pdf'' initial_state =
     Some (Inr 1,
       \<lparr>ingestor_model = Some 0, retriever_model = None, generator_client = None,
        trace = [LoadModel MODEL_NAME, Encode 0 [''Hi''], CreateIndex, GetIndex INDEX_NAME,
                 Upsert [\<lparr>vr_id = ''2-0'', vr_vector = [],
                          vr_meta = \<lparr>meta_text = Some ''Hi'', meta_page = Some 2,
                                      meta_filename = Some ''x.pdf''\<rparr>\<rparr>]]\<rparr>)"
  by (simp add: ingest_pdf_def extract_text_from_pdf_def fake_world_def strip_nonempty_def
        isspace_def chunk_text_def chunk_while.simps CHUNK_SIZE_def CHUNK_OVERLAP_def
        py_slice_def ingestor_get_model_def initial_state_def record_call_def Let_def
        ensure_index_def upsert_batches.simps BATCH_SIZE_def str_nat.simps digit_char_def)








text \<open>
  C6: if the extraction yields no page, or the chunking yields no chunk, \<open>ingest_pdf\<close>
  returns 0 and leaves the state as it was: no model is loaded, no embedding call, no
  index creation and no upsert is made.  (The extraction drops the pages that are only
  whitespace, so chunking yields no chunk exactly when there is no page.)
\<close>

theorem ingest_pdf_nothing_to_ingest:
  assumes "extract_text_from_pdf w pdf_path = Inr pages"
    and "pages = [] \<or> chunk_text pages CHUNK_SIZE CHUNK_OVERLAP = Some (Inr [])"
  shows "ingest_pdf w pdf_path filename s = Some (Inr 0, s)"
  using assms by (auto simp: ingest_pdf_def)

theorem ingest_pdf_nothing_to_ingest_witness:
  "extract_text_from_pdf (fake_world [''  '', ''\<newline>''] [] None []) ''/tmp/blank.pdf'' = Inr []
   \<and> ingest_pdf (fake_world [''  '', ''\<newline>''] [] None []) ''/tmp/blank.pdf'' ''blank.pdf''
       initial_state = Some (Inr 0, initial_state)"
proof -
  have ex: "extract_text_from_pdf (fake_world [''  '', ''\<newline>''] [] None []) ''/tmp/blank.pdf'' = Inr []"
    by (simp add: extract_text_from_pdf_def fake_world_def strip_nonempty_def isspace_def)
  have "[] = ([] :: page_info list) \<or> chunk_text [] CHUNK_SIZE CHUNK_OVERLAP = Some (Inr [])"
    by simp
  from ingest_pdf_nothing_to_ingest [OF ex this] ex show ?thesis by simp
qed

section \<open>The embedding-model handles\<close>

text \<open>
  C3: ingestion and query embedding are to use one model instance, held in a single
  process-wide handle.  The code has two handles, \<open>ingestor._model\<close> and
  \<open>retriever._model\<close>, each filled by its own module on first use.  A process that
  ingests a document and then retrieves loads the model twice: the chunks are encoded
  with object 0 and the question with object 5.
\<close>

theorem ingest_then_retrieve_loads_two_models:
  "ingest_pdf (fake_world [''   '', ''Hi''] [] None []) ''/tmp/x.pdf'' ''x.pdf'' initial_state =
     Some (Inr 1,
       \<lparr>ingestor_model = Some 0, retriever_model = None, generator_client = None,
        trace = [LoadModel MODEL_NAME, Encode 0 [''Hi''], CreateIndex, GetIndex INDEX_NAME,
                 Upsert [\<lparr>vr_id = ''2-0'', vr_vector = [],
                          vr_meta = \<lparr>meta_text = Some ''Hi'', meta_page = Some 2,
                                      meta_filename = Some ''x.pdf''\<rparr>\<rparr>]]\<rparr>)
   \<and> retrieve (fake_world [''   '', ''Hi''] [] None []) ''Why?'' TOP_K
       \<lparr>ingestor_model = Some 0, retriever_model = None, generator_client = None,
        trace = [LoadModel MODEL_NAME, Encode 0 [''Hi''], CreateIndex, GetIndex INDEX_NAME,
                 Upsert [\<lparr>vr_id = ''2-0'', vr_vector = [],
                          vr_meta = \<lparr>meta_text = Some ''Hi'', meta_page = Some 2,
                                      meta_filename = Some ''x.pdf''\<rparr>\<rparr>]]\<rparr>
     = (Inr [],
        \<lparr>ingestor_model = Some 0, retriever_model = Some 5, generator_client = None,
         trace = [LoadModel MODEL_NAME, Encode 0 [''Hi''], CreateIndex, GetIndex INDEX_NAME,
                  Upsert [\<lparr>vr_id = ''2-0'', vr_vector = [],
                           vr_meta = \<lparr>meta_text = Some ''Hi'', meta_page = Some 2,
                                       meta_filename = Some ''x.pdf''\<rparr>\<rparr>],
                  LoadModel MODEL_NAME, EncodeQuery 5 ''Why?'', GetIndex INDEX_NAME,
                  Query [] TOP_K]\<rparr>)"
proof
  show "ingest_pdf (fake_world [''   '', ''Hi''] [] None []) ''/tmp/x.pdf'' ''x.pdf'' initial_state =
     Some (Inr 1,
       \<lparr>ingestor_model = Some 0, retriever_model = None, generator_client = None,
        trace = [LoadModel MODEL_NAME, Encode 0 [''Hi''], CreateIndex, GetIndex INDEX_NAME,
                 Upsert [\<lparr>vr_id = ''2-0'', vr_vector = [],
                          vr_meta = \<lparr>meta_text = Some ''Hi'', meta_page = Some 2,
                                      meta_filename = Some ''x.pdf''\<rparr>\<rparr>]]\<rparr>)"
    by (rule ingest_pdf_example)
  show "retrieve (fake_world [''   '', ''Hi''] [] None []) ''Why?'' TOP_K
       \<lparr>ingestor_model = Some 0, retriever_model = None, generator_client = None,
        trace = [LoadModel MODEL_NAME, Encode 0 [''Hi''], CreateIndex, GetIndex INDEX_NAME,
                 Upsert [\<lparr>vr_id = ''2-0'', vr_vector = [],
                          vr_meta = \<lparr>meta_text = Some ''Hi'', meta_page = Some 2,
                                      meta_filename = Some ''x.pdf''\<rparr>\<rparr>]]\<rparr>
     = (Inr [],
        \<lparr>ingestor_model = Some 0, retriever_model = Some 5, generator_client = None,
         trace = [LoadModel MODEL_NAME, Encode 0 [''Hi''], CreateIndex, GetIndex INDEX_NAME,
                  Upsert [\<lparr>vr_id = ''2-0'', vr_vector = [],
                           vr_meta = \<lparr>meta_text = Some ''Hi'', meta_page = Some 2,
                                       meta_filename = Some ''x.pdf''\<rparr>\<rparr>],
                  LoadModel MODEL_NAME, EncodeQuery 5 ''Why?'', GetIndex INDEX_NAME,
                  Query [] TOP_K]\<rparr>)"
    by (simp add: retrieve_def retriever_get_model_def fake_world_def record_call_def Let_def)
qed

text \<open>The same holds in general: in no state of any process do the two handles hold the
  same instance.\<close>

lemma upsert_batches_frame:
  "upsert_batches w vectors start s = (r, s') \<Longrightarrow> \<exists>evs. s' = s\<lparr>trace := trace s @ evs\<rparr>"
proof (induction w vectors start s rule: upsert_batches.induct)
  case (1 w vectors start s)
  show ?case
  proof (cases "start < int (length vectors)")
    case False
    with "1.prems" have "s' = s\<lparr>trace := trace s @ []\<rparr>"
      by (simp add: upsert_batches.simps [of w vectors start s])
    then show ?thesis ..
  next
    case True
    define batch where "batch = py_slice vectors start (start + BATCH_SIZE)"
    show ?thesis
    proof (cases "index_upsert w batch")
      case (Some e)
      with True "1.prems" have "s' = s\<lparr>trace := trace s @ [Upsert batch]\<rparr>"
        by (auto simp: upsert_batches.simps [of w vectors start s] batch_def Let_def record_call_def)
      then show ?thesis ..
    next
      case None
      with True "1.prems"
      have run: "upsert_batches w vectors (start + BATCH_SIZE) (record_call (Upsert batch) s) = (r, s')"
        by (simp add: upsert_batches.simps [of w vectors start s] batch_def Let_def)
      from "1.IH" True None run obtain evs
        where "s' = (record_call (Upsert batch) s)\<lparr>trace := trace (record_call (Upsert batch) s) @ evs\<rparr>"
        by (auto simp: batch_def)
      then have "s' = s\<lparr>trace := trace s @ (Upsert batch # evs)\<rparr>"
        by (simp add: record_call_def)
      then show ?thesis ..
    qed
  qed
qed

lemma generate_loop_frame:
  "generate_loop w c p attempt s = (r, s') \<Longrightarrow> \<exists>evs. s' = s\<lparr>trace := trace s @ evs\<rparr>"
proof (induction w c p attempt s rule: generate_loop.induct)
  case (1 w c p attempt s)
  define s1 where "s1 = record_call (GenerateContent c p) s"
  show ?case
  proof (cases "attempt < max_retries")
    case False
    with "1.prems" have "s' = s\<lparr>trace := trace s @ []\<rparr>"
      by (simp add: generate_loop.simps [of w c p attempt s])
    then show ?thesis ..
  next
    case True
    show ?thesis
    proof (cases "generate_content w (llm_calls (trace s)) p")
      case (Text t)
      with True "1.prems" have "s' = s\<lparr>trace := trace s @ [GenerateContent c p]\<rparr>"
        by (simp add: generate_loop.simps [of w c p attempt s] record_call_def Let_def)
      then show ?thesis ..
    next
      case (Raises msg)
      show ?thesis
      proof (cases "rate_limited msg \<and> attempt < max_retries - 1")
        case False
        with True Raises "1.prems" have "s' = s\<lparr>trace := trace s @ [GenerateContent c p]\<rparr>"
          by (simp add: generate_loop.simps [of w c p attempt s] record_call_def Let_def)
        then show ?thesis ..
      next
        case retry: True
        define s2 where "s2 = record_call (Sleep (20 * (attempt + 1))) s1"
        from True Raises retry "1.prems"
        have run: "generate_loop w c p (attempt + 1) s2 = (r, s')"
          by (simp add: generate_loop.simps [of w c p attempt s] s1_def s2_def Let_def)
        from "1.IH" [OF True s1_def Raises retry refl, folded s2_def, OF run]
        obtain evs where "s' = s2\<lparr>trace := trace s2 @ evs\<rparr>" by blast
        then have "s' = s\<lparr>trace := trace s @ (GenerateContent c p # Sleep (20 * (attempt + 1)) # evs)\<rparr>"
          by (simp add: s2_def s1_def record_call_def)
        then show ?thesis ..
      qed
    qed
  qed
qed

lemma ingest_pdf_models:
  assumes "ingest_pdf w pdf_path filename s = Some (r, s')"
  shows "models_step s s'"
  using assms
  by (auto simp: ingest_pdf_def ingestor_get_model_def ensure_index_def record_call_def Let_def
                 models_step_def
           split: sum.splits option.splits if_splits prod.splits
           dest!: upsert_batches_frame)

lemma retrieve_models:
  assumes "retrieve w question top_k s = (r, s')"
  shows "models_step s s'"
  using assms
  by (auto simp: retrieve_def retriever_get_model_def record_call_def Let_def models_step_def
           split: sum.splits option.splits if_splits prod.splits)

lemma generate_answer_models:
  assumes "generate_answer w question chunks s = (r, s')"
  shows "models_step s s'"
  using assms
  by (auto simp: generate_answer_def get_client_def record_call_def Let_def models_step_def
           split: sum.splits option.splits if_splits prod.splits
           dest!: generate_loop_frame)

lemma models_step_distinct:
  assumes d: "models_distinct s" and st: "models_step s s'"
  shows "models_distinct s'"
proof -
  from st have le: "length (trace s) \<le> length (trace s')"
    by (simp add: models_step_def)
  from st consider
      (same) "ingestor_model s' = ingestor_model s" "retriever_model s' = retriever_model s"
    | (ingestor) "ingestor_model s = None" "ingestor_model s' = Some (length (trace s))"
        "length (trace s) < length (trace s')" "retriever_model s' = retriever_model s"
    | (retriever) "retriever_model s = None" "retriever_model s' = Some (length (trace s))"
        "length (trace s) < length (trace s')" "ingestor_model s' = ingestor_model s"
    unfolding models_step_def by (elim conjE disjE) simp_all
  then show ?thesis
  proof cases
    case same
    with d le show ?thesis
      unfolding models_distinct_def by (metis less_le_trans)
  next
    case ingestor
    from d have "\<forall>b. retriever_model s = Some b \<longrightarrow> b < length (trace s)"
      by (simp add: models_distinct_def)
    with ingestor show ?thesis
      unfolding models_distinct_def by (simp, metis less_trans less_irrefl)
  next
    case retriever
    from d have "\<forall>a. ingestor_model s = Some a \<longrightarrow> a < length (trace s)"
      by (simp add: models_distinct_def)
    with retriever show ?thesis
      unfolding models_distinct_def by (simp, metis less_trans less_irrefl)
  qed
qed

lemma reachable_models_distinct:
  assumes "reachable w s"
  shows "models_distinct s"
  using assms
proof (induction rule: reachable.induct)
  case start
  show ?case by (simp add: models_distinct_def initial_state_def)
next
  case (after_ingest s pdf_path filename r s')
  from models_step_distinct [OF after_ingest.IH ingest_pdf_models [OF after_ingest.hyps(2)]]
  show ?case .
next
  case (after_retrieve s question top_k r s')
  from models_step_distinct [OF after_retrieve.IH retrieve_models [OF after_retrieve.hyps(2)]]
  show ?case .
next
  case (after_generate s question chunks r s')
  from models_step_distinct [OF after_generate.IH generate_answer_models [OF after_generate.hyps(2)]]
  show ?case .
next
  case (after_ask s question r s')
  obtain r1 s1 where ret: "retrieve w question TOP_K s = (r1, s1)"
    by (cases "retrieve w question TOP_K s")
  from models_step_distinct [OF after_ask.IH retrieve_models [OF ret]]
  have d1: "models_distinct s1" .
  show ?case
  proof (cases r1)
    case (Inl e)
    with ret after_ask.hyps(2) have "s' = s1" by (simp add: ask_def)
    with d1 show ?thesis by simp
  next
    case (Inr srcs)
    obtain r2 s2 where gen: "generate_answer w question srcs s1 = (r2, s2)"
      by (cases "generate_answer w question srcs s1")
    with Inr ret after_ask.hyps(2) have "s' = s2"
      by (auto simp: ask_def split: sum.splits)
    with models_step_distinct [OF d1 generate_answer_models [OF gen]] show ?thesis by simp
  qed
qed

lemma model_handles_never_shared:
  assumes "reachable w s" and "ingestor_model s = Some a" and "retriever_model s = Some b"
  shows "a \<noteq> b"
  using reachable_models_distinct [OF assms(1)] assms(2,3)
  by (simp add: models_distinct_def)

end
